theory Spec2Isabelle
  imports Complex_Main "HOL-Library.Log_Nat"
begin

section \<open>Numbers\<close>

text \<open>
  A Python number of this program is an \<open>int\<close>, which is unbounded, or a \<open>float\<close>, which
  is an IEEE 754 double. The bird's vertical position, velocity and jump height are \<open>int\<close>
  as long as they hold a value given by the caller or the literal \<open>0\<close>, and \<open>float\<close> once
  an operation with the literals \<open>-10.5\<close> or \<open>1.5\<close> has produced them.
\<close>

datatype pynum = PyInt int | PyFloat real

text \<open>The number a Python value stands for.\<close>

fun num_val :: "pynum \<Rightarrow> real" where
  "num_val (PyInt i) = of_int i"
| "num_val (PyFloat r) = r"

text \<open>Rounding to the nearest integer, a tie going to the even neighbour.\<close>

definition round_half_even :: "real \<Rightarrow> int" where
  "round_half_even r =
     (let f = \<lfloor>r\<rfloor>; d = r - of_int f
      in if d < 1 / 2 then f
         else if 1 / 2 < d then f + 1
         else if even f then f else f + 1)"

text \<open>
  The result of a double operation is the real result rounded to the nearest double, a tie
  going to the even significand. \<open>float_exponent x\<close> is the \<open>e\<close> with
  \<open>2 ^ e \<le> \<bar>x\<bar> < 2 ^ (e + 1)\<close>; a double has 53 significant bits, so the doubles near \<open>x\<close>
  are the multiples of \<open>2 ^ (e - 52)\<close>, and below \<open>2 ^ - 1022\<close> those of \<open>2 ^ - 1074\<close>. The
  upper end of the exponent range is not modelled: from \<open>2 ^ 1024\<close> on a double operation
  gives an infinity and the conversion of an \<open>int\<close> raises \<open>OverflowError\<close>, and what is
  proved about numbers below is proved for magnitudes far under that.
\<close>

definition float_exponent :: "real \<Rightarrow> int" where
  "float_exponent x =
     (if 1 \<le> \<bar>x\<bar> then int (floorlog 2 (nat \<lfloor>\<bar>x\<bar>\<rfloor>)) - 1
      else - int (floorlog 2 (nat (\<lceil>1 / \<bar>x\<bar>\<rceil> - 1))))"

definition binary64 :: "real \<Rightarrow> real" where
  "binary64 x =
     (if x = 0 then 0
      else let u = 2 powi (max (float_exponent x) (- 1022) - 52)
           in of_int (round_half_even (x / u)) * u)"

text \<open>
  The conversion that an arithmetic operation applies to an operand when the other operand
  is a \<open>float\<close>.
\<close>

fun to_float :: "pynum \<Rightarrow> real" where
  "to_float (PyInt i) = binary64 (of_int i)"
| "to_float (PyFloat r) = r"

text \<open>
  \<open>+\<close>, \<open>-\<close> and \<open>*\<close>: exact on two \<open>int\<close>s, a double operation otherwise. The comparisons
  of Python compare the exact values, also between an \<open>int\<close> and a \<open>float\<close>.
\<close>

fun py_add :: "pynum \<Rightarrow> pynum \<Rightarrow> pynum" where
  "py_add (PyInt i) (PyInt j) = PyInt (i + j)"
| "py_add a b = PyFloat (binary64 (to_float a + to_float b))"

fun py_sub :: "pynum \<Rightarrow> pynum \<Rightarrow> pynum" where
  "py_sub (PyInt i) (PyInt j) = PyInt (i - j)"
| "py_sub a b = PyFloat (binary64 (to_float a - to_float b))"

fun py_mul :: "pynum \<Rightarrow> pynum \<Rightarrow> pynum" where
  "py_mul (PyInt i) (PyInt j) = PyInt (i * j)"
| "py_mul a b = PyFloat (binary64 (to_float a * to_float b))"

definition py_less :: "pynum \<Rightarrow> pynum \<Rightarrow> bool" where
  "py_less a b \<longleftrightarrow> num_val a < num_val b"

definition py_le :: "pynum \<Rightarrow> pynum \<Rightarrow> bool" where
  "py_le a b \<longleftrightarrow> num_val a \<le> num_val b"

text \<open>
  Python 3's builtin \<open>round\<close> with one argument: an \<open>int\<close> is returned as it is, a
  \<open>float\<close> is rounded to the nearest integer, a tie going to the even neighbour.
\<close>

fun py_round :: "pynum \<Rightarrow> int" where
  "py_round (PyInt i) = i"
| "py_round (PyFloat r) = round_half_even r"

section \<open>The bird\<close>

text \<open>
  Class \<open>Bird\<close>. The field \<open>img\<close> holds one of the three surfaces of \<open>IMGS\<close>; the
  model stores its index in that list. The tilt and the two counters only ever hold
  \<open>int\<close>s. \<open>y\<close> is the number the caller gave, \<open>main\<close> giving the \<open>int\<close> 350, until the
  first advance makes it a \<open>float\<close>; the velocity is the \<open>int\<close> 0 until a jump makes it the
  \<open>float\<close> -10.5; the jump height is a copy of \<open>y\<close>.
\<close>

definition MAX_ROTATION :: int where "MAX_ROTATION = 25"
definition ROT_VEL :: int where "ROT_VEL = 20"
definition ANIMATION_TIME :: int where "ANIMATION_TIME = 5"

record bird =
  bird_x :: int
  bird_y :: pynum
  bird_tilt :: int
  bird_tick_count :: int
  bird_vel :: pynum
  bird_height :: pynum
  bird_img_count :: int
  bird_img :: nat

definition Bird_init :: "int \<Rightarrow> pynum \<Rightarrow> bird" where
  "Bird_init x y =
     \<lparr>bird_x = x, bird_y = y, bird_tilt = 0, bird_tick_count = 0, bird_vel = PyInt 0,
      bird_height = y, bird_img_count = 0, bird_img = 0\<rparr>"

definition jump :: "bird \<Rightarrow> bird" where
  "jump b =
     b\<lparr>bird_vel := PyFloat (- 10.5), bird_tick_count := 0, bird_height := bird_y b\<rparr>"

text \<open>
  \<open>Bird.move\<close>: the statements of the method in their order; every \<open>let\<close> is one
  assignment. The tick count is an \<open>int\<close>, and so are its square and the literals
  \<open>16\<close>, \<open>2\<close> and \<open>50\<close>.
\<close>

definition bird_move :: "bird \<Rightarrow> bird" where
  "bird_move b =
     (let tc = bird_tick_count b + 1;
          d0 = py_add (py_mul (bird_vel b) (PyInt tc)) (py_mul (PyFloat 1.5) (PyInt (tc\<^sup>2)));
          d1 = (if py_le (PyInt 16) d0 then PyInt 16 else d0);
          d2 = (if py_less d1 (PyInt 0) then py_sub d1 (PyInt 2) else d1);
          y' = py_add (bird_y b) d2;
          t' = (if py_less d2 (PyInt 0) \<or> py_less y' (py_add (bird_height b) (PyInt 50))
                then (if bird_tilt b < MAX_ROTATION then MAX_ROTATION else bird_tilt b)
                else (if - 90 < bird_tilt b then bird_tilt b - ROT_VEL else bird_tilt b))
      in b\<lparr>bird_tick_count := tc, bird_y := y', bird_tilt := t'\<rparr>)"

text \<open>
  \<open>Bird.draw\<close>: the part that changes the bird (the frame counter and the frame
  shown). Rotating and blitting the image writes to the window only.
\<close>

definition bird_draw :: "bird \<Rightarrow> bird" where
  "bird_draw b =
     (let c = bird_img_count b + 1;
          b1 = b\<lparr>bird_img_count := c\<rparr>;
          b2 = (if c < ANIMATION_TIME then b1\<lparr>bird_img := 0\<rparr>
                else if c < ANIMATION_TIME * 2 then b1\<lparr>bird_img := 1\<rparr>
                else if c < ANIMATION_TIME * 3 then b1\<lparr>bird_img := 2\<rparr>
                else if c < ANIMATION_TIME * 4 then b1\<lparr>bird_img := 1\<rparr>
                else if c = ANIMATION_TIME * 4 + 1
                  then b1\<lparr>bird_img := 0, bird_img_count := 0\<rparr>
                else b1)
      in if bird_tilt b2 \<le> - 80
         then b2\<lparr>bird_img := 1, bird_img_count := ANIMATION_TIME * 2\<rparr>
         else b2)"

section \<open>Surfaces, masks and the random source\<close>

text \<open>
  Modelled from the spec: the image, mask and random facilities are external
  collaborators (pygame and Python's \<open>random\<close>), described in the spec as "a pixel-mask
  facility providing per-sprite opaque-pixel bitmaps and an overlap-test primitive
  between two masks at a given offset". A surface is its size and the list of its opaque
  pixels; the assets are the surfaces bound to the module's global names after loading
  and scaling.
\<close>

record surface =
  s_width :: nat
  s_height :: nat
  s_opaque :: "(int \<times> int) list"

record assets =
  BIRD_IMG1 :: surface
  BIRD_IMG2 :: surface
  BIRD_IMG3 :: surface
  PIPE_IMG :: surface
  BASE_IMG :: surface

definition BIRD_IMGS :: "assets \<Rightarrow> surface list" where
  "BIRD_IMGS A = [BIRD_IMG1 A, BIRD_IMG2 A, BIRD_IMG3 A]"

text \<open>
  Modelled from the spec: \<open>pygame.transform.flip(surface, flip_x, flip_y)\<close> mirrors
  the pixels and keeps the size.
\<close>

definition flip :: "surface \<Rightarrow> bool \<Rightarrow> bool \<Rightarrow> surface" where
  "flip s flip_x flip_y =
     s\<lparr>s_opaque :=
         map (\<lambda>(px, py).
                (if flip_x then int (s_width s) - 1 - px else px,
                 if flip_y then int (s_height s) - 1 - py else py))
             (s_opaque s)\<rparr>"

record mask =
  m_width :: nat
  m_height :: nat
  m_bits :: "(int \<times> int) list"

text \<open>
  Modelled from the spec: \<open>pygame.mask.from_surface\<close> sets the bit of every opaque
  pixel inside the surface.
\<close>

definition from_surface :: "surface \<Rightarrow> mask" where
  "from_surface s =
     \<lparr>m_width = s_width s, m_height = s_height s,
      m_bits = filter (\<lambda>(px, py). 0 \<le> px \<and> px < int (s_width s) \<and>
                                   0 \<le> py \<and> py < int (s_height s)) (s_opaque s)\<rparr>"

text \<open>
  Modelled from the spec: \<open>Mask.overlap(other, offset)\<close> returns the first point of
  this mask whose bit is set and that lies on a set bit of \<open>other\<close>, the origin of
  \<open>other\<close> being at \<open>offset\<close> in this mask's coordinates; \<open>None\<close> when there is none.
\<close>

definition overlap :: "mask \<Rightarrow> mask \<Rightarrow> int \<times> int \<Rightarrow> (int \<times> int) option" where
  "overlap m other offs =
     find (\<lambda>(px, py). (px - fst offs, py - snd offs) \<in> set (m_bits other)) (m_bits m)"

text \<open>
  Modelled from the spec: \<open>random.randrange(start, stop)\<close> returns an element of
  \<open>range(start, stop)\<close> chosen by the generator; \<open>r\<close> is the generator's raw output for
  this draw.
\<close>

definition randrange :: "int \<Rightarrow> int \<Rightarrow> nat \<Rightarrow> int" where
  "randrange start stop r = start + int r mod (stop - start)"

text \<open>\<open>Bird.get_mask\<close>: the mask of the frame currently shown.\<close>

definition get_mask :: "assets \<Rightarrow> bird \<Rightarrow> mask" where
  "get_mask A b = from_surface (BIRD_IMGS A ! bird_img b)"

section \<open>The pipe\<close>

text \<open>
  Class \<open>Pipe\<close>. The fields \<open>PIPE_TOP\<close> and \<open>PIPE_BOTTOM\<close> are the same two surfaces
  for every pipe, computed from the global \<open>PIPE_IMG\<close>; they are functions of the assets
  here.
\<close>

definition GAP :: int where "GAP = 200"
definition PIPE_VEL :: int where "PIPE_VEL = 5"

definition PIPE_TOP :: "assets \<Rightarrow> surface" where
  "PIPE_TOP A = flip (PIPE_IMG A) False True"

definition PIPE_BOTTOM :: "assets \<Rightarrow> surface" where
  "PIPE_BOTTOM A = PIPE_IMG A"

record pipe =
  pipe_x :: int
  pipe_height :: int
  pipe_top :: int
  pipe_bottom :: int
  pipe_passed :: bool

definition set_height :: "assets \<Rightarrow> nat \<Rightarrow> pipe \<Rightarrow> pipe" where
  "set_height A r p =
     (let p1 = p\<lparr>pipe_height := randrange 50 450 r\<rparr>;
          p2 = p1\<lparr>pipe_top := pipe_height p1 - int (s_height (PIPE_TOP A))\<rparr>
      in p2\<lparr>pipe_bottom := pipe_height p2 + GAP\<rparr>)"

definition Pipe_init :: "assets \<Rightarrow> int \<Rightarrow> nat \<Rightarrow> pipe" where
  "Pipe_init A x r =
     set_height A r
       \<lparr>pipe_x = x, pipe_height = 0, pipe_top = 0, pipe_bottom = 0, pipe_passed = False\<rparr>"

definition pipe_move :: "pipe \<Rightarrow> pipe" where
  "pipe_move p = p\<lparr>pipe_x := pipe_x p - PIPE_VEL\<rparr>"

text \<open>
  \<open>Pipe.collide\<close>. A point returned by \<open>overlap\<close> is a pair, which Python counts as
  true; \<open>None\<close> counts as false.
\<close>

definition collide :: "assets \<Rightarrow> pipe \<Rightarrow> bird \<Rightarrow> bool" where
  "collide A p b =
     (let bird_mask = get_mask A b;
          top_mask = from_surface (PIPE_TOP A);
          bottom_mask = from_surface (PIPE_BOTTOM A);
          top_offset = (pipe_x p - bird_x b, pipe_top p - py_round (bird_y b));
          bottom_offset = (pipe_x p - bird_x b, pipe_bottom p - py_round (bird_y b));
          t_point = overlap bird_mask top_mask top_offset;
          b_point = overlap bird_mask bottom_mask bottom_offset
      in if t_point \<noteq> None \<or> b_point \<noteq> None then True else False)"

section \<open>The floor\<close>

definition BASE_VEL :: int where "BASE_VEL = 5"

definition WIDTH :: "assets \<Rightarrow> int" where
  "WIDTH A = int (s_width (BASE_IMG A))"

record base =
  base_y :: int
  base_x1 :: int
  base_x2 :: int

definition Base_init :: "assets \<Rightarrow> int \<Rightarrow> base" where
  "Base_init A y = \<lparr>base_y = y, base_x1 = 0, base_x2 = WIDTH A\<rparr>"

definition base_move :: "assets \<Rightarrow> base \<Rightarrow> base" where
  "base_move A s =
     (let s1 = s\<lparr>base_x1 := base_x1 s - BASE_VEL\<rparr>;
          s2 = s1\<lparr>base_x2 := base_x2 s1 - BASE_VEL\<rparr>;
          s3 = (if base_x1 s2 + WIDTH A < 0
                then s2\<lparr>base_x1 := base_x2 s2 + WIDTH A\<rparr> else s2)
      in if base_x2 s3 + WIDTH A < 0
         then s3\<lparr>base_x2 := base_x1 s3 + WIDTH A\<rparr> else s3)"

section \<open>The game loop\<close>

text \<open>
  The state of \<open>main\<close>: its local variables. One iteration of the \<open>while\<close> loop reads
  the events that arrived and, when it builds a pipe, one draw of the random generator.
\<close>

datatype event = QUIT | OTHER

datatype error = ValueError

record game =
  g_bird :: bird
  g_base :: base
  g_pipes :: "pipe list"
  g_score :: int
  g_run :: bool

record tick_input =
  events :: "event list"
  rnd :: nat

text \<open>
  \<open>draw_window\<close> writes to the window; of the objects it is given only the bird
  changes, through \<open>Bird.draw\<close>. The result is the bird afterwards.
\<close>

definition draw_window :: "bird \<Rightarrow> pipe list \<Rightarrow> base \<Rightarrow> int \<Rightarrow> bird" where
  "draw_window b ps s score = bird_draw b"

text \<open>
  The loop \<open>for pipe in pipes\<close>. The list \<open>rem\<close> holds references to pipes: the pipe
  appended to it is the object that the rest of the iteration marks and moves, so the
  value appended here is the pipe as the iteration leaves it. The results of
  \<open>collide\<close> and of the floor test are computed and dropped, as in the source.
\<close>

fun pipe_loop ::
  "assets \<Rightarrow> bird \<Rightarrow> pipe list \<Rightarrow> bool \<Rightarrow> pipe list \<Rightarrow> pipe list \<times> bool \<times> pipe list" where
  "pipe_loop A b [] add_pipe rem = ([], add_pipe, rem)"
| "pipe_loop A b (p # ps) add_pipe rem =
     (let hit = collide A p b;
          gone = (pipe_x p + int (s_width (PIPE_TOP A)) < 0);
          pass = (\<not> pipe_passed p \<and> pipe_x p < bird_x b);
          p1 = (if pass then p\<lparr>pipe_passed := True\<rparr> else p);
          add_pipe1 = (if pass then True else add_pipe);
          p2 = pipe_move p1;
          rem1 = (if gone then rem @ [p2] else rem);
          (ps', add_pipe', rem') = pipe_loop A b ps add_pipe1 rem1
      in (p2 # ps', add_pipe', rem'))"

text \<open>
  \<open>for r in rem: pipes.remove(r)\<close>. \<open>list.remove\<close> deletes the first element equal
  to its argument and raises \<open>ValueError\<close> when there is none.
\<close>

fun remove_all :: "pipe list \<Rightarrow> pipe list \<Rightarrow> error + pipe list" where
  "remove_all [] ps = Inr ps"
| "remove_all (r # rem) ps =
     (if r \<in> set ps then remove_all rem (remove1 r ps) else Inl ValueError)"

definition main_tick :: "assets \<Rightarrow> tick_input \<Rightarrow> game \<Rightarrow> error + game" where
  "main_tick A inp g =
     (let run1 = (if QUIT \<in> set (events inp) then False else g_run g);
          b = g_bird g;
          (ps1, add_pipe, rem) = pipe_loop A b (g_pipes g) False [];
          score1 = (if add_pipe then g_score g + 1 else g_score g);
          ps2 = (if add_pipe then ps1 @ [Pipe_init A 600 (rnd inp)] else ps1)
      in case remove_all rem ps2 of
           Inl e \<Rightarrow> Inl e
         | Inr ps3 \<Rightarrow>
             (let floor_hit =
                    py_le (PyInt 730)
                      (py_add (bird_y b) (PyInt (int (s_height (BIRD_IMGS A ! bird_img b)))));
                  s1 = base_move A (g_base g);
                  b1 = draw_window b ps3 s1 score1
              in Inr \<lparr>g_bird = b1, g_base = s1, g_pipes = ps3, g_score = score1,
                      g_run = run1\<rparr>))"

text \<open>
  \<open>main\<close> before the loop, and the loop itself: one element of the input list per
  iteration, the test \<open>while run\<close> before each.
\<close>

definition main_init :: "assets \<Rightarrow> nat \<Rightarrow> game" where
  "main_init A r0 =
     \<lparr>g_bird = Bird_init 230 (PyInt 350), g_base = Base_init A 730,
      g_pipes = [Pipe_init A 600 r0], g_score = 0, g_run = True\<rparr>"

fun main_loop :: "assets \<Rightarrow> game \<Rightarrow> tick_input list \<Rightarrow> error + game" where
  "main_loop A g [] = Inr g"
| "main_loop A g (inp # inps) =
     (if g_run g
      then (case main_tick A inp g of
              Inl e \<Rightarrow> Inl e
            | Inr g' \<Rightarrow> main_loop A g' inps)
      else Inr g)"

section \<open>Runs, fixtures and invariants\<close>

text \<open>
  The calls a client can make on a bird, and a bird after a sequence of them.
\<close>

datatype bird_op = Jump | Move | Draw

fun bird_step :: "bird_op \<Rightarrow> bird \<Rightarrow> bird" where
  "bird_step Jump b = jump b"
| "bird_step Move b = bird_move b"
| "bird_step Draw b = bird_draw b"

definition bird_run :: "bird_op list \<Rightarrow> bird \<Rightarrow> bird" where
  "bird_run ops b = fold bird_step ops b"

text \<open>
  The value of the local variable \<open>displacement\<close> of \<open>Bird.move\<close> when it is added to
  \<open>y\<close>.
\<close>

definition displacement_of :: "bird \<Rightarrow> pynum" where
  "displacement_of b =
     (let tc = bird_tick_count b + 1;
          d0 = py_add (py_mul (bird_vel b) (PyInt tc)) (py_mul (PyFloat 1.5) (PyInt (tc\<^sup>2)));
          d1 = (if py_le (PyInt 16) d0 then PyInt 16 else d0)
      in if py_less d1 (PyInt 0) then py_sub d1 (PyInt 2) else d1)"

text \<open>
  What one iteration of \<open>for pipe in pipes\<close> decides for a pipe: whether it goes to
  \<open>rem\<close>, whether it is newly passed, and the pipe as the iteration leaves it.
\<close>

definition pipe_gone :: "assets \<Rightarrow> pipe \<Rightarrow> bool" where
  "pipe_gone A p \<longleftrightarrow> pipe_x p + int (s_width (PIPE_TOP A)) < 0"

definition pipe_passes :: "bird \<Rightarrow> pipe \<Rightarrow> bool" where
  "pipe_passes b p \<longleftrightarrow> \<not> pipe_passed p \<and> pipe_x p < bird_x b"

definition pipe_after :: "bird \<Rightarrow> pipe \<Rightarrow> pipe" where
  "pipe_after b p = pipe_move (if pipe_passes b p then p\<lparr>pipe_passed := True\<rparr> else p)"

text \<open>
  The frame that the branches of \<open>Bird.draw\<close> select for a value of the counter
  between 0 and 20.
\<close>

definition cycle_frame :: "int \<Rightarrow> nat" where
  "cycle_frame c = (if c < 5 then 0 else if c < 10 then 1 else if c < 15 then 2 else 1)"

text \<open>The invariant of the bird's frame counter and frame.\<close>

definition frame_inv :: "bird \<Rightarrow> bool" where
  "frame_inv b \<longleftrightarrow>
     0 \<le> bird_img_count b \<and> bird_img_count b \<le> 20 \<and>
     (bird_img b = cycle_frame (bird_img_count b) \<or>
      (bird_img_count b = 10 \<and> bird_img b = 1))"

definition same_kinematics :: "bird \<Rightarrow> bird \<Rightarrow> bool" where
  "same_kinematics b c \<longleftrightarrow>
     bird_x c = bird_x b \<and> bird_y c = bird_y b \<and> bird_vel c = bird_vel b \<and>
     bird_tilt c = bird_tilt b \<and> bird_tick_count c = bird_tick_count b \<and>
     bird_height c = bird_height b"

text \<open>The geometry of a pipe, and the invariant of the pipe list of \<open>main\<close>.\<close>

definition pipe_ok :: "assets \<Rightarrow> pipe \<Rightarrow> bool" where
  "pipe_ok A p \<longleftrightarrow>
     50 \<le> pipe_height p \<and> pipe_height p < 450 \<and>
     pipe_top p + int (s_height (PIPE_TOP A)) = pipe_height p \<and>
     pipe_height p = pipe_bottom p - GAP"

definition pipes_ok :: "assets \<Rightarrow> game \<Rightarrow> bool" where
  "pipes_ok A g \<longleftrightarrow> list_all (pipe_ok A) (g_pipes g)"

definition game_inv :: "game \<Rightarrow> bool" where
  "game_inv g \<longleftrightarrow>
     bird_x (g_bird g) = 230 \<and> g_pipes g \<noteq> [] \<and>
     list_all pipe_passed (butlast (g_pipes g)) \<and>
     \<not> pipe_passed (last (g_pipes g)) \<and> 225 \<le> pipe_x (last (g_pipes g))"

text \<open>The two floor segments lie side by side, and the left one starts at or before 0.\<close>

definition base_tiled :: "assets \<Rightarrow> base \<Rightarrow> bool" where
  "base_tiled A s \<longleftrightarrow> \<bar>base_x1 s - base_x2 s\<bar> = WIDTH A"

definition base_covers :: "assets \<Rightarrow> base \<Rightarrow> bool" where
  "base_covers A s \<longleftrightarrow>
     min (base_x1 s) (base_x2 s) \<le> 0 \<and> 0 \<le> min (base_x1 s) (base_x2 s) + WIDTH A"

text \<open>
  A set of assets with the sizes of the game's sprites after scaling and a few opaque
  pixels each, and an iteration without events, for evaluating the program.
\<close>

definition sample_assets :: assets where
  "sample_assets =
     \<lparr>BIRD_IMG1 = \<lparr>s_width = 68, s_height = 48, s_opaque = [(10, 10), (11, 10)]\<rparr>,
      BIRD_IMG2 = \<lparr>s_width = 68, s_height = 48, s_opaque = [(10, 12), (11, 12)]\<rparr>,
      BIRD_IMG3 = \<lparr>s_width = 68, s_height = 48, s_opaque = [(10, 14), (11, 14)]\<rparr>,
      PIPE_IMG = \<lparr>s_width = 104, s_height = 640, s_opaque = [(0, 0), (1, 0)]\<rparr>,
      BASE_IMG = \<lparr>s_width = 672, s_height = 224, s_opaque = [(0, 0)]\<rparr>\<rparr>"

definition no_events :: "nat \<Rightarrow> tick_input" where
  "no_events r = \<lparr>events = [], rnd = r\<rparr>"

section \<open>Double arithmetic\<close>

lemma pow_le_real: "(2::nat) ^ k \<le> n \<Longrightarrow> (2::real) ^ k \<le> real n"
proof -
  assume "(2::nat) ^ k \<le> n"
  then have "real ((2::nat) ^ k) \<le> real n" by (simp only: of_nat_le_iff)
  then show ?thesis by simp
qed

lemma less_pow_real: "n < (2::nat) ^ k \<Longrightarrow> real n + 1 \<le> (2::real) ^ k"
proof -
  assume "n < (2::nat) ^ k"
  then have "Suc n \<le> 2 ^ k" by simp
  then have "real (Suc n) \<le> real ((2::nat) ^ k)" by (simp only: of_nat_le_iff)
  then show ?thesis by simp
qed

text \<open>
  \<open>float_exponent\<close> is the binary exponent of its argument, and \<open>binary64\<close> moves a
  number by at most half the distance between the doubles around it.
\<close>

lemma float_exponent_bounds:
  assumes "x \<noteq> 0"
  shows "2 powi float_exponent x \<le> \<bar>x\<bar>" and "\<bar>x\<bar> < 2 powi (float_exponent x + 1)"
proof -
  have "2 powi float_exponent x \<le> \<bar>x\<bar> \<and> \<bar>x\<bar> < 2 powi (float_exponent x + 1)"
  proof (cases "1 \<le> \<bar>x\<bar>")
    case True
    define n where "n = nat \<lfloor>\<bar>x\<bar>\<rfloor>"
    define f where "f = floorlog 2 n"
    have n1: "1 \<le> n" using True by (simp add: n_def le_nat_iff)
    have nx: "real n \<le> \<bar>x\<bar>" "\<bar>x\<bar> < real n + 1"
      using True by (simp_all add: n_def)
    have b: "2 ^ (f - 1) \<le> n" "n < 2 ^ f"
      using floorlog_bounds [of n 2] n1 by (simp_all add: f_def)
    have f1: "1 \<le> f" using b(2) n1 by (cases f) simp_all
    have e: "float_exponent x = int f - 1"
      using True by (simp add: float_exponent_def n_def f_def)
    have p1: "2 powi (int f - 1) = (2::real) ^ (f - 1)"
      using f1 by (simp add: power_int_def nat_diff_distrib)
    have p2: "2 powi (int f - 1 + 1) = (2::real) ^ f"
      by (simp add: power_int_def)
    have "(2::real) ^ (f - 1) \<le> real n"
      using b(1) by (rule pow_le_real)
    moreover have "real n + 1 \<le> 2 ^ f"
      using b(2) by (rule less_pow_real)
    ultimately show ?thesis
      using nx unfolding e p1 p2 by linarith
  next
    case False
    define z where "z = 1 / \<bar>x\<bar>"
    define m where "m = nat (\<lceil>z\<rceil> - 1)"
    define f where "f = floorlog 2 m"
    have x0: "0 < \<bar>x\<bar>" using assms by simp
    have z1: "1 < z" using False x0 by (simp add: z_def)
    have c2: "2 \<le> \<lceil>z\<rceil>" using z1 by (simp add: le_ceiling_iff)
    from c2 have c1: "(1::int) \<le> \<lceil>z\<rceil> - 1" by linarith
    then have "nat 1 \<le> nat (\<lceil>z\<rceil> - 1)" by (rule nat_mono)
    then have m1: "1 \<le> m" by (simp add: m_def)
    have "int m = \<lceil>z\<rceil> - 1" using c1 unfolding m_def by linarith
    then have "real_of_int (int m) = real_of_int (\<lceil>z\<rceil> - 1)" by (simp only:)
    then have rm: "real m = of_int \<lceil>z\<rceil> - 1" by simp
    have mz: "real m < z" "z \<le> real m + 1"
      unfolding rm by linarith+
    have b: "2 ^ (f - 1) \<le> m" "m < 2 ^ f"
      using floorlog_bounds [of m 2] m1 by (simp_all add: f_def)
    have f1: "1 \<le> f" using b(2) m1 by (cases f) simp_all
    have e: "float_exponent x = - int f"
      using False by (simp add: float_exponent_def z_def m_def f_def)
    have p1: "2 powi (- int f) = 1 / (2::real) ^ f"
      using f1 by (simp add: power_int_def inverse_eq_divide power_one_over)
    have p2: "2 powi (- int f + 1) = 1 / (2::real) ^ (f - 1)"
      using f1 by (cases f) (simp_all add: power_int_def inverse_eq_divide power_one_over nat_diff_distrib nat_add_distrib)
    have lo: "(2::real) ^ (f - 1) \<le> real m"
      using b(1) by (rule pow_le_real)
    have hi: "real m + 1 \<le> 2 ^ f"
      using b(2) by (rule less_pow_real)
    have zf: "z \<le> 2 ^ f" using mz(2) hi by linarith
    have zl: "2 ^ (f - 1) < z" using mz(1) lo by linarith
    have xz: "\<bar>x\<bar> = 1 / z" using x0 by (simp add: z_def)
    have "1 / (2::real) ^ f \<le> 1 / z"
      using zf z1 by (intro divide_left_mono) simp_all
    moreover have "1 / z < 1 / (2::real) ^ (f - 1)"
      using zl z1 by (intro divide_strict_left_mono mult_pos_pos) simp_all
    ultimately show ?thesis
      unfolding e p1 p2 xz by simp
  qed
  then show "2 powi float_exponent x \<le> \<bar>x\<bar>" and "\<bar>x\<bar> < 2 powi (float_exponent x + 1)"
    by simp_all
qed


lemma round_half_even_near: "\<bar>of_int (round_half_even r) - r\<bar> \<le> 1 / 2"
proof -
  define f where "f = \<lfloor>r\<rfloor>"
  define d where "d = r - of_int f"
  have d: "0 \<le> d" "d < 1"
    unfolding d_def f_def by linarith+
  have v: "round_half_even r =
      (if d < 1 / 2 then f else if 1 / 2 < d then f + 1 else if even f then f else f + 1)"
    by (simp add: round_half_even_def Let_def f_def d_def)
  have "of_int (round_half_even r) - r = of_int (round_half_even r) - of_int f - d"
    by (simp add: d_def)
  also have "\<bar>\<dots>\<bar> \<le> 1 / 2"
    using d unfolding v by (auto simp add: abs_if)
  finally show ?thesis .
qed

lemma binary64_near:
  assumes "x \<noteq> 0"
  shows "\<bar>binary64 x - x\<bar> \<le> 2 powi (max (float_exponent x) (- 1022) - 52) / 2"
proof -
  define u :: real where "u = 2 powi (max (float_exponent x) (- 1022) - 52)"
  have u0: "0 < u" by (simp add: u_def)
  have "binary64 x - x = (of_int (round_half_even (x / u)) - x / u) * u"
    using assms u0 by (simp add: binary64_def Let_def u_def [symmetric] left_diff_distrib)
  then have "\<bar>binary64 x - x\<bar> = \<bar>of_int (round_half_even (x / u)) - x / u\<bar> * u"
    using u0 by (simp add: abs_mult)
  also have "\<dots> \<le> 1 / 2 * u"
    using round_half_even_near [of "x / u"] u0 by (intro mult_right_mono) simp_all
  finally show ?thesis by (simp add: u_def)
qed

lemma round_half_even_int: "round_half_even (of_int m) = m"
  by (simp add: round_half_even_def)

lemma float_exponent_small:
  assumes "\<bar>x\<bar> < 2 ^ 52"
  shows "float_exponent x \<le> 51"
proof (cases "1 \<le> \<bar>x\<bar>")
  case True
  have "\<lfloor>\<bar>x\<bar>\<rfloor> < 2 ^ 52"
    using assms by (simp add: floor_less_iff)
  then have "nat \<lfloor>\<bar>x\<bar>\<rfloor> < 2 ^ 52"
    by (simp add: nat_less_iff)
  then have "floorlog 2 (nat \<lfloor>\<bar>x\<bar>\<rfloor>) \<le> 52"
    by (intro floorlog_leI) simp_all
  with True show ?thesis by (simp add: float_exponent_def)
next
  case False
  then show ?thesis by (simp add: float_exponent_def)
qed

text \<open>
  A multiple of one half below \<open>2 ^ 52\<close> in magnitude is a double: rounding leaves it as
  it is.
\<close>

lemma binary64_exact:
  assumes "2 * x \<in> \<int>" "\<bar>x\<bar> < 2 ^ 52"
  shows "binary64 x = x"
proof (cases "x = 0")
  case True
  then show ?thesis by (simp add: binary64_def)
next
  case False
  define k where "k = nat (52 - max (float_exponent x) (- 1022))"
  have e: "float_exponent x \<le> 51"
    using assms(2) by (rule float_exponent_small)
  then have k1: "1 \<le> k" by (simp add: k_def)
  have u: "2 powi (max (float_exponent x) (- 1022) - 52) = 1 / (2::real) ^ k"
    using e by (simp add: power_int_def k_def inverse_eq_divide power_one_over)
  from assms(1) obtain m where m: "2 * x = of_int m"
    by (auto elim: Ints_cases)
  obtain j where j: "k = Suc j" using k1 by (cases k) simp_all
  have p: "x * 2 ^ k = of_int (m * 2 ^ j)"
    using m by (simp add: j)
  then have q: "x / (1 / 2 ^ k) = of_int (m * 2 ^ j)" by simp
  have "binary64 x = of_int (round_half_even (x / (1 / 2 ^ k))) * (1 / 2 ^ k)"
    using False by (simp only: binary64_def Let_def u if_False)
  also have "\<dots> = of_int (m * 2 ^ j) * (1 / 2 ^ k)"
    by (simp only: q round_half_even_int)
  also have "\<dots> = x * 2 ^ k * (1 / 2 ^ k)"
    using p by simp
  also have "\<dots> = x" by simp
  finally show ?thesis .
qed

lemma to_float_exact:
  assumes "2 * num_val a \<in> \<int>" "\<bar>num_val a\<bar> < 2 ^ 52"
  shows "to_float a = num_val a"
  using assms by (cases a) (simp_all add: binary64_exact)

lemma py_add_exact:
  assumes "2 * num_val a \<in> \<int>" "2 * num_val b \<in> \<int>"
    and "\<bar>num_val a\<bar> < 2 ^ 52" "\<bar>num_val b\<bar> < 2 ^ 52" "\<bar>num_val a + num_val b\<bar> < 2 ^ 52"
  shows "num_val (py_add a b) = num_val a + num_val b"
proof -
  have h: "2 * (num_val a + num_val b) \<in> \<int>"
    using assms(1,2) by (simp add: distrib_left)
  have "binary64 (to_float a + to_float b) = num_val a + num_val b"
    using assms h by (simp add: to_float_exact binary64_exact)
  then show ?thesis
    by (cases a; cases b) simp_all
qed

lemma py_sub_exact:
  assumes "2 * num_val a \<in> \<int>" "2 * num_val b \<in> \<int>"
    and "\<bar>num_val a\<bar> < 2 ^ 52" "\<bar>num_val b\<bar> < 2 ^ 52" "\<bar>num_val a - num_val b\<bar> < 2 ^ 52"
  shows "num_val (py_sub a b) = num_val a - num_val b"
proof -
  have h: "2 * (num_val a - num_val b) \<in> \<int>"
    using assms(1,2) by (simp add: right_diff_distrib)
  have "binary64 (to_float a - to_float b) = num_val a - num_val b"
    using assms h by (simp add: to_float_exact binary64_exact)
  then show ?thesis
    by (cases a; cases b) simp_all
qed

lemma py_mul_exact:
  assumes "2 * num_val a \<in> \<int>" "2 * num_val b \<in> \<int>" "2 * (num_val a * num_val b) \<in> \<int>"
    and "\<bar>num_val a\<bar> < 2 ^ 52" "\<bar>num_val b\<bar> < 2 ^ 52" "\<bar>num_val a * num_val b\<bar> < 2 ^ 52"
  shows "num_val (py_mul a b) = num_val a * num_val b"
proof -
  have "binary64 (to_float a * to_float b) = num_val a * num_val b"
    using assms by (simp add: to_float_exact binary64_exact)
  then show ?thesis
    by (cases a; cases b) simp_all
qed

section \<open>Displacement of one advance\<close>

text \<open>
  The displacement before the two corrections, for a tick count up to \<open>2 ^ 24\<close>: every
  operation is exact.
\<close>

lemma raw_displacement:
  assumes v: "v = PyInt 0 \<or> v = PyFloat (- 10.5)" and n: "1 \<le> n" "n \<le> 2 ^ 24"
  shows "num_val (py_add (py_mul v (PyInt n)) (py_mul (PyFloat 1.5) (PyInt (n\<^sup>2)))) =
           num_val v * of_int n + 1.5 * (of_int n)\<^sup>2"
    and "2 * (num_val v * of_int n + 1.5 * (of_int n)\<^sup>2) \<in> \<int>"
    and "\<bar>num_val v * of_int n + 1.5 * (of_int n)\<^sup>2 :: real\<bar> < 2 ^ 50"
proof -
  have nr: "1 \<le> (of_int n :: real)" "(of_int n :: real) \<le> 2 ^ 24"
    using n by (simp_all add: of_int_le_numeral_power_cancel_iff)
  have "(of_int n :: real)\<^sup>2 \<le> (2 ^ 24)\<^sup>2"
    using nr by (intro power_mono) simp_all
  then have sq: "(of_int n :: real)\<^sup>2 \<le> 2 ^ 48" by simp
  have sq0: "0 \<le> (of_int n :: real)\<^sup>2" by simp
  have m2i: "2 * (1.5 * (of_int n :: real)\<^sup>2) = of_int (3 * n\<^sup>2)" by simp
  have m1i: "2 * (- 10.5 * (of_int n :: real)) = of_int (- 21 * n)" by simp
  have "num_val (py_mul (PyFloat 1.5) (PyInt (n\<^sup>2))) =
      num_val (PyFloat 1.5) * num_val (PyInt (n\<^sup>2))"
  proof (rule py_mul_exact)
    show "2 * num_val (PyFloat 1.5) \<in> \<int>" by simp
    show "2 * num_val (PyInt (n\<^sup>2)) \<in> \<int>" by simp
    have "2 * (num_val (PyFloat 1.5) * num_val (PyInt (n\<^sup>2))) = of_int (3 * n\<^sup>2)"
      by simp
    then show "2 * (num_val (PyFloat 1.5) * num_val (PyInt (n\<^sup>2))) \<in> \<int>"
      by (simp only: Ints_of_int)
    show "\<bar>num_val (PyFloat 1.5)\<bar> < 2 ^ 52" by simp
    show "\<bar>num_val (PyInt (n\<^sup>2))\<bar> < 2 ^ 52" using sq by simp
    show "\<bar>num_val (PyFloat 1.5) * num_val (PyInt (n\<^sup>2))\<bar> < 2 ^ 52"
      using sq sq0 by simp
  qed
  then have m2: "num_val (py_mul (PyFloat 1.5) (PyInt (n\<^sup>2))) = 1.5 * (of_int n)\<^sup>2"
    by simp
  have m1: "num_val (py_mul v (PyInt n)) = num_val v * of_int n"
    using v
  proof
    assume "v = PyInt 0"
    then show ?thesis by simp
  next
    assume f: "v = PyFloat (- 10.5)"
    have "num_val (py_mul (PyFloat (- 10.5)) (PyInt n)) =
        num_val (PyFloat (- 10.5)) * num_val (PyInt n)"
    proof (rule py_mul_exact)
      show "2 * num_val (PyFloat (- 10.5)) \<in> \<int>" by simp
      show "2 * num_val (PyInt n) \<in> \<int>" by simp
      have "2 * (num_val (PyFloat (- 10.5)) * num_val (PyInt n)) = of_int (- 21 * n)"
        by simp
      then show "2 * (num_val (PyFloat (- 10.5)) * num_val (PyInt n)) \<in> \<int>"
        by (simp only: Ints_of_int)
      show "\<bar>num_val (PyFloat (- 10.5))\<bar> < 2 ^ 52" by simp
      show "\<bar>num_val (PyInt n)\<bar> < 2 ^ 52" using nr by simp
      show "\<bar>num_val (PyFloat (- 10.5)) * num_val (PyInt n)\<bar> < 2 ^ 52"
        using nr by (simp add: abs_mult)
    qed
    with f show ?thesis by simp
  qed
  have vb: "num_val v = 0 \<or> num_val v = - 10.5"
    using v by auto
  have i1: "2 * (num_val v * of_int n) \<in> \<int>"
    using vb m1i by (auto simp del: of_int_mult)
  have i2: "2 * (1.5 * (of_int n :: real)\<^sup>2) \<in> \<int>"
    by (simp only: m2i Ints_of_int)
  have b1: "\<bar>num_val v * of_int n\<bar> \<le> 10.5 * 2 ^ 24"
    using vb nr by auto
  have b2: "\<bar>1.5 * (of_int n :: real)\<^sup>2\<bar> \<le> 1.5 * 2 ^ 48"
    using sq sq0 by simp
  have "\<bar>num_val v * of_int n + 1.5 * (of_int n)\<^sup>2 :: real\<bar> \<le>
      \<bar>num_val v * of_int n\<bar> + \<bar>1.5 * (of_int n :: real)\<^sup>2\<bar>"
    by (rule abs_triangle_ineq)
  also have "\<dots> \<le> 10.5 * 2 ^ 24 + 1.5 * 2 ^ 48"
    using b1 b2 by (rule add_mono)
  also have "\<dots> < (2 ^ 50 :: real)" by simp
  finally show s: "\<bar>num_val v * of_int n + 1.5 * (of_int n)\<^sup>2 :: real\<bar> < 2 ^ 50" .
  show "2 * (num_val v * of_int n + 1.5 * (of_int n)\<^sup>2) \<in> \<int>"
    using i1 i2 by (simp only: distrib_left Ints_add)
  have "num_val (py_add (py_mul v (PyInt n)) (py_mul (PyFloat 1.5) (PyInt (n\<^sup>2)))) =
      num_val (py_mul v (PyInt n)) + num_val (py_mul (PyFloat 1.5) (PyInt (n\<^sup>2)))"
    using i1 i2 b1 b2 s
    by (intro py_add_exact) (simp_all only: m1 m2, simp_all)
  then show "num_val (py_add (py_mul v (PyInt n)) (py_mul (PyFloat 1.5) (PyInt (n\<^sup>2)))) =
           num_val v * of_int n + 1.5 * (of_int n)\<^sup>2"
    by (simp only: m1 m2)
qed

lemma bird_move_unfold:
  "bird_move b =
     b\<lparr>bird_tick_count := bird_tick_count b + 1,
       bird_y := py_add (bird_y b) (displacement_of b),
       bird_tilt :=
         (if py_less (displacement_of b) (PyInt 0) \<or>
             py_less (py_add (bird_y b) (displacement_of b)) (py_add (bird_height b) (PyInt 50))
          then (if bird_tilt b < MAX_ROTATION then MAX_ROTATION else bird_tilt b)
          else (if - 90 < bird_tilt b then bird_tilt b - ROT_VEL else bird_tilt b))\<rparr>"
  by (simp add: bird_move_def displacement_of_def Let_def)

lemma displacement_exact:
  assumes v: "bird_vel b = PyInt 0 \<or> bird_vel b = PyFloat (- 10.5)"
    and t: "0 \<le> bird_tick_count b" "bird_tick_count b < 2 ^ 24"
  shows "num_val (displacement_of b) =
       (let n = of_int (bird_tick_count b + 1);
            s = num_val (bird_vel b) * n + 1.5 * n\<^sup>2
        in if 0 \<le> s then min 16 s else s - 2)"
    and "2 * num_val (displacement_of b) \<in> \<int>"
    and "\<bar>num_val (displacement_of b)\<bar> < 2 ^ 50 + 2"
proof -
  define n where "n = bird_tick_count b + 1"
  define d0 where
    "d0 = py_add (py_mul (bird_vel b) (PyInt n)) (py_mul (PyFloat 1.5) (PyInt (n\<^sup>2)))"
  define s :: real where "s = num_val (bird_vel b) * of_int n + 1.5 * (of_int n)\<^sup>2"
  define d1 where "d1 = (if py_le (PyInt 16) d0 then PyInt 16 else d0)"
  define d2 where "d2 = (if py_less d1 (PyInt 0) then py_sub d1 (PyInt 2) else d1)"
  have n: "1 \<le> n" "n \<le> 2 ^ 24"
    using t by (simp_all add: n_def)
  have d0: "num_val d0 = s" and si: "2 * s \<in> \<int>" and sb: "\<bar>s\<bar> < 2 ^ 50"
    unfolding d0_def s_def by (rule raw_displacement [OF v n])+
  have d1: "num_val d1 = min 16 s"
    by (simp add: d1_def py_le_def d0 min_def)
  have d2: "num_val d2 = (if 0 \<le> s then min 16 s else s - 2)"
  proof (cases "0 \<le> s")
    case True
    then show ?thesis
      by (simp add: d2_def py_less_def d1 min_def)
  next
    case False
    then have e: "d2 = py_sub d0 (PyInt 2)"
      by (simp add: d2_def d1_def py_less_def py_le_def d0)
    have "num_val (py_sub d0 (PyInt 2)) = num_val d0 - num_val (PyInt 2)"
      using si sb by (intro py_sub_exact) (simp_all add: d0)
    with False show ?thesis by (simp add: e d0)
  qed
  have eq: "displacement_of b = d2"
    by (simp add: displacement_of_def Let_def d2_def d1_def d0_def n_def)
  show "num_val (displacement_of b) =
       (let n = of_int (bird_tick_count b + 1);
            s = num_val (bird_vel b) * n + 1.5 * n\<^sup>2
        in if 0 \<le> s then min 16 s else s - 2)"
    by (simp add: eq d2 Let_def s_def n_def)
  show "2 * num_val (displacement_of b) \<in> \<int>"
  proof (cases "0 \<le> s")
    case True
    then show ?thesis using si by (simp add: eq d2 min_def)
  next
    case False
    have "2 * (s - 2) = 2 * s - 4" by simp
    with False si show ?thesis by (simp add: eq d2)
  qed
  show "\<bar>num_val (displacement_of b)\<bar> < 2 ^ 50 + 2"
    using sb unfolding eq d2 min_def by (auto simp add: abs_if split: if_splits)
qed

text \<open>
  One advance of a bird with small numbers, in exact arithmetic: the new \<open>y\<close> and the
  new tilt.
\<close>

lemma bird_move_small:
  assumes v: "bird_vel b = PyInt 0 \<or> bird_vel b = PyFloat (- 10.5)"
    and t: "0 \<le> bird_tick_count b" "bird_tick_count b < 2 ^ 24"
    and y: "2 * num_val (bird_y b) \<in> \<int>" "\<bar>num_val (bird_y b)\<bar> \<le> 2 ^ 50"
    and h: "2 * num_val (bird_height b) \<in> \<int>" "\<bar>num_val (bird_height b)\<bar> \<le> 2 ^ 50"
  shows "num_val (bird_y (bird_move b)) = num_val (bird_y b) + num_val (displacement_of b)"
    and "bird_tilt (bird_move b) =
       (if num_val (displacement_of b) < 0 \<or>
           num_val (bird_y b) + num_val (displacement_of b) < num_val (bird_height b) + 50
        then (if bird_tilt b < 25 then 25 else bird_tilt b)
        else (if - 90 < bird_tilt b then bird_tilt b - 20 else bird_tilt b))"
proof -
  have di: "2 * num_val (displacement_of b) \<in> \<int>"
    and db: "\<bar>num_val (displacement_of b)\<bar> < 2 ^ 50 + 2"
    using v t by (rule displacement_exact)+
  have ya: "num_val (py_add (bird_y b) (displacement_of b)) =
      num_val (bird_y b) + num_val (displacement_of b)"
    using y di db by (intro py_add_exact) simp_all
  have ha: "num_val (py_add (bird_height b) (PyInt 50)) = num_val (bird_height b) + 50"
    using py_add_exact [of "bird_height b" "PyInt 50"] h by simp
  show "num_val (bird_y (bird_move b)) = num_val (bird_y b) + num_val (displacement_of b)"
    by (simp add: bird_move_unfold ya)
  show "bird_tilt (bird_move b) =
       (if num_val (displacement_of b) < 0 \<or>
           num_val (bird_y b) + num_val (displacement_of b) < num_val (bird_height b) + 50
        then (if bird_tilt b < 25 then 25 else bird_tilt b)
        else (if - 90 < bird_tilt b then bird_tilt b - 20 else bird_tilt b))"
    by (simp add: bird_move_unfold py_less_def ya ha MAX_ROTATION_def ROT_VEL_def)
qed

lemma bird_move_frame:
  "bird_vel (bird_move b) = bird_vel b" "bird_height (bird_move b) = bird_height b"
  "bird_tick_count (bird_move b) = bird_tick_count b + 1" "bird_x (bird_move b) = bird_x b"
  by (simp_all add: bird_move_unfold)



lemma first_displacement: "displacement_of (Bird_init x y) = PyFloat 1.5"
  by (simp add: displacement_of_def Bird_init_def Let_def py_le_def py_less_def binary64_exact)




section \<open>The tilt of the bird\<close>

text \<open>
  One advance of a bird that has not jumped and started at 350, in exact arithmetic.
\<close>

lemma free_fall_step:
  assumes v: "bird_vel b = PyInt 0" and h: "bird_height b = PyInt 350"
    and k: "bird_tick_count b = k" "0 \<le> k" "k < 100"
    and y: "num_val (bird_y b) = yv" "2 * yv \<in> \<int>" "\<bar>yv\<bar> \<le> 1000"
    and tilt: "bird_tilt b = tv"
  shows "bird_vel (bird_move b) = PyInt 0" "bird_height (bird_move b) = PyInt 350"
    "bird_tick_count (bird_move b) = k + 1"
    "num_val (bird_y (bird_move b)) = yv + min 16 (1.5 * (of_int (k + 1))\<^sup>2)"
    "bird_tilt (bird_move b) =
       (if yv + min 16 (1.5 * (of_int (k + 1))\<^sup>2) < 400
        then (if tv < 25 then 25 else tv) else (if - 90 < tv then tv - 20 else tv))"
proof -
  have v': "bird_vel b = PyInt 0 \<or> bird_vel b = PyFloat (- 10.5)" using v by simp
  have t: "0 \<le> bird_tick_count b" "bird_tick_count b < 2 ^ 24" using k by simp_all
  have y': "2 * num_val (bird_y b) \<in> \<int>" "\<bar>num_val (bird_y b)\<bar> \<le> 2 ^ 50"
    using y by simp_all
  have h': "2 * num_val (bird_height b) \<in> \<int>" "\<bar>num_val (bird_height b)\<bar> \<le> 2 ^ 50"
    using h by simp_all
  define D :: real where "D = min 16 (1.5 * (of_int (k + 1))\<^sup>2)"
  have d: "num_val (displacement_of b) = D"
    using displacement_exact(1) [OF v' t] v k by (simp add: Let_def D_def)
  have D0: "\<not> D < 0"
    by (simp add: D_def min_def)
  show "bird_vel (bird_move b) = PyInt 0" "bird_height (bird_move b) = PyInt 350"
    "bird_tick_count (bird_move b) = k + 1"
    using v h k by (simp_all add: bird_move_frame)
  have "num_val (bird_y (bird_move b)) = yv + D"
    using bird_move_small(1) [OF v' t y' h'] by (simp only: d y(1))
  then show "num_val (bird_y (bird_move b)) = yv + min 16 (1.5 * (of_int (k + 1))\<^sup>2)"
    by (simp only: D_def)
  have "bird_tilt (bird_move b) =
       (if D < 0 \<or> yv + D < num_val (PyInt 350) + 50
        then (if tv < 25 then 25 else tv) else (if - 90 < tv then tv - 20 else tv))"
    using bird_move_small(2) [OF v' t y' h'] by (simp only: d y(1) h tilt)
  then have "bird_tilt (bird_move b) =
       (if yv + D < 400
        then (if tv < 25 then 25 else tv) else (if - 90 < tv then tv - 20 else tv))"
    using D0 by simp
  then show "bird_tilt (bird_move b) =
       (if yv + min 16 (1.5 * (of_int (k + 1))\<^sup>2) < 400
        then (if tv < 25 then 25 else tv) else (if - 90 < tv then tv - 20 else tv))"
    by (simp only: D_def)
qed

text \<open>
  C2. The tilt of the bird of \<open>main\<close> after ten calls of \<open>Bird.move\<close> and no jump is -95,
  below the -90 of the claim. The first four advances are in the rising branch and set the
  tilt to 25; the next six are in the falling branch, where the test \<open>tilt > -90\<close> comes
  before the subtraction of 20 and nothing holds the result at -90: 5, -15, -35, -55, -75,
  -95. All numbers of this run are small multiples of one half, so no operation rounds.
\<close>

theorem tilt_after_ten_moves:
  "bird_tilt (bird_run [Move, Move, Move, Move, Move, Move, Move, Move, Move, Move]
      (Bird_init 230 (PyInt 350))) = - 95"
proof -
  define b0 where "b0 = Bird_init 230 (PyInt 350)"
  define b1 where "b1 = bird_move b0"
  define b2 where "b2 = bird_move b1"
  define b3 where "b3 = bird_move b2"
  define b4 where "b4 = bird_move b3"
  define b5 where "b5 = bird_move b4"
  define b6 where "b6 = bird_move b5"
  define b7 where "b7 = bird_move b6"
  define b8 where "b8 = bird_move b7"
  define b9 where "b9 = bird_move b8"
  define b10 where "b10 = bird_move b9"
  have s0: "bird_vel b0 = PyInt 0" "bird_height b0 = PyInt 350" "bird_tick_count b0 = 0"
    "num_val (bird_y b0) = 350" "bird_tilt b0 = 0"
    by (simp_all add: b0_def Bird_init_def)
  have s1: "bird_vel b1 = PyInt 0" "bird_height b1 = PyInt 350" "bird_tick_count b1 = 1"
    "num_val (bird_y b1) = 351.5" "bird_tilt b1 = 25"
    unfolding b1_def using free_fall_step [OF s0(1,2,3) _ _ s0(4) _ _ s0(5)] by simp_all
  have s2: "bird_vel b2 = PyInt 0" "bird_height b2 = PyInt 350" "bird_tick_count b2 = 2"
    "num_val (bird_y b2) = 357.5" "bird_tilt b2 = 25"
    unfolding b2_def using free_fall_step [OF s1(1,2,3) _ _ s1(4) _ _ s1(5)] by simp_all
  have s3: "bird_vel b3 = PyInt 0" "bird_height b3 = PyInt 350" "bird_tick_count b3 = 3"
    "num_val (bird_y b3) = 371" "bird_tilt b3 = 25"
    unfolding b3_def using free_fall_step [OF s2(1,2,3) _ _ s2(4) _ _ s2(5)] by simp_all
  have s4: "bird_vel b4 = PyInt 0" "bird_height b4 = PyInt 350" "bird_tick_count b4 = 4"
    "num_val (bird_y b4) = 387" "bird_tilt b4 = 25"
    unfolding b4_def using free_fall_step [OF s3(1,2,3) _ _ s3(4) _ _ s3(5)] by simp_all
  have s5: "bird_vel b5 = PyInt 0" "bird_height b5 = PyInt 350" "bird_tick_count b5 = 5"
    "num_val (bird_y b5) = 403" "bird_tilt b5 = 5"
    unfolding b5_def using free_fall_step [OF s4(1,2,3) _ _ s4(4) _ _ s4(5)] by simp_all
  have s6: "bird_vel b6 = PyInt 0" "bird_height b6 = PyInt 350" "bird_tick_count b6 = 6"
    "num_val (bird_y b6) = 419" "bird_tilt b6 = - 15"
    unfolding b6_def using free_fall_step [OF s5(1,2,3) _ _ s5(4) _ _ s5(5)] by simp_all
  have s7: "bird_vel b7 = PyInt 0" "bird_height b7 = PyInt 350" "bird_tick_count b7 = 7"
    "num_val (bird_y b7) = 435" "bird_tilt b7 = - 35"
    unfolding b7_def using free_fall_step [OF s6(1,2,3) _ _ s6(4) _ _ s6(5)] by simp_all
  have s8: "bird_vel b8 = PyInt 0" "bird_height b8 = PyInt 350" "bird_tick_count b8 = 8"
    "num_val (bird_y b8) = 451" "bird_tilt b8 = - 55"
    unfolding b8_def using free_fall_step [OF s7(1,2,3) _ _ s7(4) _ _ s7(5)] by simp_all
  have s9: "bird_vel b9 = PyInt 0" "bird_height b9 = PyInt 350" "bird_tick_count b9 = 9"
    "num_val (bird_y b9) = 467" "bird_tilt b9 = - 75"
    unfolding b9_def using free_fall_step [OF s8(1,2,3) _ _ s8(4) _ _ s8(5)] by simp_all
  have s10: "bird_tilt b10 = - 95"
    unfolding b10_def using free_fall_step(5) [OF s9(1,2,3) _ _ s9(4) _ _ s9(5)] by simp
  have "bird_run [Move, Move, Move, Move, Move, Move, Move, Move, Move, Move]
      (Bird_init 230 (PyInt 350)) = b10"
    by (simp add: bird_run_def b10_def b9_def b8_def b7_def b6_def b5_def b4_def b3_def
        b2_def b1_def b0_def)
  with s10 show ?thesis by simp
qed

section \<open>The animation frames\<close>

lemma frame_inv_init: "frame_inv (Bird_init x y)"
  by (simp add: frame_inv_def Bird_init_def cycle_frame_def)

lemma frame_inv_jump: "frame_inv b \<Longrightarrow> frame_inv (jump b)"
  by (simp add: frame_inv_def jump_def)

lemma frame_inv_move: "frame_inv b \<Longrightarrow> frame_inv (bird_move b)"
  by (simp add: frame_inv_def bird_move_def Let_def)

lemma bird_draw_tilt: "bird_tilt (bird_draw b) = bird_tilt b"
  by (simp add: bird_draw_def Let_def)

lemma draw_count:
  assumes "- 80 < bird_tilt b" "frame_inv b"
  shows "bird_img_count (bird_draw b) = (bird_img_count b + 1) mod 21"
  using assms by (auto simp add: bird_draw_def Let_def ANIMATION_TIME_def frame_inv_def)

text \<open>
  When the counter reaches 20 no branch of \<open>Bird.draw\<close> applies and the frame stays what
  it was, which is frame 1; at 21 the counter and the frame go back to 0.
\<close>

lemma draw_img:
  assumes "- 80 < bird_tilt b" "frame_inv b"
  shows "bird_img (bird_draw b) = cycle_frame ((bird_img_count b + 1) mod 21)"
proof -
  have c: "0 \<le> bird_img_count b" "bird_img_count b \<le> 20"
    using assms(2) by (simp_all add: frame_inv_def)
  consider "bird_img_count b = 19" | "bird_img_count b = 20" | "bird_img_count b < 19"
    using c by linarith
  then show ?thesis
  proof cases
    case 1
    with assms show ?thesis
      by (simp add: bird_draw_def Let_def ANIMATION_TIME_def frame_inv_def cycle_frame_def)
  next
    case 2
    with assms show ?thesis
      by (simp add: bird_draw_def Let_def ANIMATION_TIME_def cycle_frame_def)
  next
    case 3
    with assms c show ?thesis
      by (auto simp add: bird_draw_def Let_def ANIMATION_TIME_def cycle_frame_def)
  qed
qed

lemma frame_inv_draw: "frame_inv b \<Longrightarrow> frame_inv (bird_draw b)"
proof (cases "- 80 < bird_tilt b")
  case True
  assume "frame_inv b"
  with True show ?thesis
    using draw_count [of b] draw_img [of b] by (simp add: frame_inv_def)
next
  case False
  then show ?thesis
    by (simp add: bird_draw_def Let_def ANIMATION_TIME_def frame_inv_def cycle_frame_def)
qed

lemma draws_cycle:
  assumes "- 80 < bird_tilt b" "frame_inv b"
  shows "- 80 < bird_tilt ((bird_draw ^^ Suc k) b)
       \<and> frame_inv ((bird_draw ^^ Suc k) b)
       \<and> bird_img_count ((bird_draw ^^ Suc k) b) = (bird_img_count b + 1 + int k) mod 21
       \<and> bird_img ((bird_draw ^^ Suc k) b) = cycle_frame ((bird_img_count b + 1 + int k) mod 21)"
proof (induction k)
  case 0
  with assms show ?case
    by (simp add: draw_count draw_img frame_inv_draw bird_draw_tilt)
next
  case (Suc k)
  let ?d = "(bird_draw ^^ Suc k) b"
  have "((bird_img_count b + 1 + int k) mod 21 + 1) mod 21 =
      (bird_img_count b + 1 + int (Suc k)) mod 21"
    by (simp add: mod_simps algebra_simps)
  with Suc show ?case
    using draw_count [of ?d] draw_img [of ?d] frame_inv_draw [of ?d] bird_draw_tilt [of ?d]
    by simp
qed

lemma frame_inv_step: "frame_inv b \<Longrightarrow> frame_inv (bird_step c b)"
  by (cases c) (simp_all add: frame_inv_jump frame_inv_move frame_inv_draw)

lemma frame_inv_run: "frame_inv b \<Longrightarrow> frame_inv (bird_run ops b)"
  unfolding bird_run_def by (induction ops arbitrary: b) (simp_all add: frame_inv_step)

lemma cycle_frame_index: "cycle_frame c \<in> {0, 1, 2}"
  by (simp add: cycle_frame_def)

lemma frame_inv_index:
  assumes "frame_inv b"
  shows "bird_img b \<in> {0, 1, 2}"
proof -
  from assms consider "bird_img b = cycle_frame (bird_img_count b)" | "bird_img b = 1"
    unfolding frame_inv_def by blast
  then show ?thesis
  proof cases
    case 1
    then show ?thesis using cycle_frame_index [of "bird_img_count b"] by simp
  next
    case 2
    then show ?thesis by simp
  qed
qed

text \<open>
  C5, as the code has it. In every state that a sequence of \<open>jump\<close>, \<open>move\<close> and
  \<open>draw\<close> calls reaches from a new bird the frame index is 0, 1 or 2. From such a state
  with the tilt above -80, the counter after \<open>k + 1\<close> further \<open>draw\<close> calls is the
  counter before plus \<open>k + 1\<close>, modulo 21, and the frame is the one of that counter: frame
  0 for the counters 0 to 4, frame 1 for 5 to 9, frame 2 for 10 to 14 and frame 1 for the
  six counters 15 to 20. The frames repeat with period 21.
\<close>

theorem frame_cycle:
  "bird_img (bird_run ops (Bird_init x y)) \<in> {0, 1, 2} \<and>
   (let b = bird_run ops (Bird_init x y) in
      - 80 < bird_tilt b \<longrightarrow>
        bird_img_count ((bird_draw ^^ Suc k) b) = (bird_img_count b + 1 + int k) mod 21 \<and>
        bird_img ((bird_draw ^^ Suc k) b) = cycle_frame ((bird_img_count b + 1 + int k) mod 21) \<and>
        bird_img ((bird_draw ^^ (Suc k + 21)) b) = bird_img ((bird_draw ^^ Suc k) b))"
proof -
  define b where "b = bird_run ops (Bird_init x y)"
  have inv: "frame_inv b"
    unfolding b_def using frame_inv_init by (rule frame_inv_run)
  have idx: "bird_img b \<in> {0, 1, 2}"
    using inv by (rule frame_inv_index)
  have cyc: "bird_img_count ((bird_draw ^^ Suc k) b) = (bird_img_count b + 1 + int k) mod 21 \<and>
        bird_img ((bird_draw ^^ Suc k) b) = cycle_frame ((bird_img_count b + 1 + int k) mod 21) \<and>
        bird_img ((bird_draw ^^ (Suc k + 21)) b) = bird_img ((bird_draw ^^ Suc k) b)"
    if t: "- 80 < bird_tilt b"
  proof -
    have e: "bird_img_count b + 1 + int (k + 21) = (bird_img_count b + 1 + int k) + 21"
      by simp
    have m: "(bird_img_count b + 1 + int (k + 21)) mod 21 = (bird_img_count b + 1 + int k) mod 21"
      unfolding e by (rule mod_add_self2)
    have s: "Suc k + 21 = Suc (k + 21)" by simp
    from draws_cycle [OF t inv, of k]
    have 1: "bird_img_count ((bird_draw ^^ Suc k) b) = (bird_img_count b + 1 + int k) mod 21"
      and 2: "bird_img ((bird_draw ^^ Suc k) b) = cycle_frame ((bird_img_count b + 1 + int k) mod 21)"
      by blast+
    from draws_cycle [OF t inv, of "k + 21"]
    have 3: "bird_img ((bird_draw ^^ Suc (k + 21)) b) =
        cycle_frame ((bird_img_count b + 1 + int (k + 21)) mod 21)"
      by blast
    have "bird_img ((bird_draw ^^ (Suc k + 21)) b) = bird_img ((bird_draw ^^ Suc k) b)"
      unfolding s 3 m 2 ..
    with 1 2 show ?thesis by blast
  qed
  show ?thesis
    unfolding Let_def b_def [symmetric] using idx cyc by blast
qed

text \<open>
  The new bird of \<open>main\<close> after 20 calls of \<open>draw\<close>: the counter is 20 and the frame is
  still 1, as it is 21 calls later.
\<close>

theorem frame_cycle_witness:
  "- 80 < bird_tilt (bird_run [] (Bird_init 230 (PyInt 350))) \<and>
   bird_img_count ((bird_draw ^^ 20) (bird_run [] (Bird_init 230 (PyInt 350)))) = 20 \<and>
   bird_img ((bird_draw ^^ 20) (bird_run [] (Bird_init 230 (PyInt 350)))) = 1 \<and>
   bird_img ((bird_draw ^^ 41) (bird_run [] (Bird_init 230 (PyInt 350)))) = 1"
proof -
  let ?b = "bird_run [] (Bird_init 230 (PyInt 350))"
  have t: "- 80 < bird_tilt ?b" and c: "bird_img_count ?b = 0"
    by (simp_all add: bird_run_def Bird_init_def)
  have n: "Suc 19 = 20" "(20::nat) + 21 = 41" "(0 + 1 + int 19) mod 21 = 20"
    by simp_all
  from frame_cycle [of "[]" 230 "PyInt 350" 19] t
  have "bird_img_count ((bird_draw ^^ Suc 19) ?b) = (bird_img_count ?b + 1 + int 19) mod 21 \<and>
        bird_img ((bird_draw ^^ Suc 19) ?b) = cycle_frame ((bird_img_count ?b + 1 + int 19) mod 21) \<and>
        bird_img ((bird_draw ^^ (Suc 19 + 21)) ?b) = bird_img ((bird_draw ^^ Suc 19) ?b)"
    unfolding Let_def by blast
  then have "bird_img_count ((bird_draw ^^ 20) ?b) = 20 \<and>
        bird_img ((bird_draw ^^ 20) ?b) = cycle_frame 20 \<and>
        bird_img ((bird_draw ^^ 41) ?b) = bird_img ((bird_draw ^^ 20) ?b)"
    unfolding c n .
  moreover have "cycle_frame 20 = 1" by (simp add: cycle_frame_def)
  ultimately show ?thesis using t by simp
qed

text \<open>
  The frames do not repeat with period 20: the new bird of \<open>main\<close> shows frame 1 after 5
  calls of \<open>draw\<close> and frame 0 after 25, computed from the definitions alone.
\<close>

theorem frame_period_counterexample:
  "bird_img ((bird_draw ^^ 5) (Bird_init 230 (PyInt 350))) = 1 \<and>
   bird_img ((bird_draw ^^ 25) (Bird_init 230 (PyInt 350))) = 0"
  by (simp add: eval_nat_numeral bird_draw_def Bird_init_def Let_def ANIMATION_TIME_def)

section \<open>One iteration of the game loop\<close>

lemma pipe_loop_eq:
  "pipe_loop A b ps add_pipe rem =
     (map (pipe_after b) ps,
      add_pipe \<or> (\<exists>p\<in>set ps. pipe_passes b p),
      rem @ map (pipe_after b) (filter (pipe_gone A) ps))"
proof (induction ps arbitrary: add_pipe rem)
  case Nil
  show ?case by simp
next
  case (Cons p ps)
  show ?case
    by (auto simp add: Cons.IH Let_def pipe_after_def pipe_passes_def pipe_gone_def)
qed

text \<open>
  Removing, one after the other, the elements of a list that satisfy \<open>Q\<close> leaves the
  others in their order and never fails, whatever stands before and after them.
\<close>

lemma remove_all_filter:
  assumes "\<forall>y\<in>set ys. \<not> Q y"
  shows "remove_all (filter Q xs) (ys @ xs @ zs) = Inr (ys @ filter (\<lambda>x. \<not> Q x) xs @ zs)"
  using assms
proof (induction xs arbitrary: ys)
  case Nil
  show ?case by simp
next
  case (Cons a xs)
  show ?case
  proof (cases "Q a")
    case True
    with Cons.prems have "a \<notin> set ys" by blast
    then have "remove1 a (ys @ (a # xs) @ zs) = ys @ xs @ zs"
      by (simp add: remove1_append)
    with True Cons.IH [OF Cons.prems] show ?thesis by simp
  next
    case False
    with Cons.prems have "\<forall>y\<in>set (ys @ [a]). \<not> Q y" by simp
    from Cons.IH [OF this] False show ?thesis by simp
  qed
qed

lemma pipe_after_x: "pipe_x (pipe_after b p) = pipe_x p - 5"
  by (simp add: pipe_after_def pipe_move_def PIPE_VEL_def)

lemma pipe_after_passed:
  "pipe_passed (pipe_after b p) \<longleftrightarrow> pipe_passed p \<or> pipe_x p < bird_x b"
  by (simp add: pipe_after_def pipe_move_def pipe_passes_def)

lemma pipe_gone_fun: "pipe_gone A = (\<lambda>p. pipe_x p + int (s_width (PIPE_TOP A)) < 0)"
  by (simp add: fun_eq_iff pipe_gone_def)

lemma rem_as_filter:
  "map (pipe_after b) (filter (pipe_gone A) ps) =
     filter (\<lambda>q. pipe_x q + 5 + int (s_width (PIPE_TOP A)) < 0) (map (pipe_after b) ps)"
  by (simp add: filter_map o_def pipe_after_x pipe_gone_fun)

lemma kept_as_filter:
  "filter (\<lambda>q. \<not> pipe_x q + 5 + int (s_width (PIPE_TOP A)) < 0) (map (pipe_after b) ps) =
     map (pipe_after b) (filter (\<lambda>p. \<not> pipe_gone A p) ps)"
  by (simp add: filter_map o_def pipe_after_x pipe_gone_fun)

lemma remove_rem:
  "remove_all (map (pipe_after b) (filter (pipe_gone A) ps)) (map (pipe_after b) ps @ zs) =
     Inr (map (pipe_after b) (filter (\<lambda>p. \<not> pipe_gone A p) ps) @ zs)"
  using remove_all_filter [of "[]" "\<lambda>q. pipe_x q + 5 + int (s_width (PIPE_TOP A)) < 0"
      "map (pipe_after b) ps" zs]
  by (simp add: rem_as_filter kept_as_filter)

text \<open>The state after one iteration, in closed form; an iteration never fails.\<close>

lemma main_tick_eq:
  "main_tick A inp g =
     Inr \<lparr>g_bird = bird_draw (g_bird g),
          g_base = base_move A (g_base g),
          g_pipes = map (pipe_after (g_bird g)) (filter (\<lambda>p. \<not> pipe_gone A p) (g_pipes g)) @
                    (if \<exists>p\<in>set (g_pipes g). pipe_passes (g_bird g) p
                     then [Pipe_init A 600 (rnd inp)] else []),
          g_score = g_score g + (if \<exists>p\<in>set (g_pipes g). pipe_passes (g_bird g) p then 1 else 0),
          g_run = (g_run g \<and> QUIT \<notin> set (events inp))\<rparr>"
proof (cases "\<exists>p\<in>set (g_pipes g). pipe_passes (g_bird g) p")
  case True
  then show ?thesis
    using remove_rem [of "g_bird g" A "g_pipes g" "[Pipe_init A 600 (rnd inp)]"]
    by (simp add: main_tick_def pipe_loop_eq Let_def draw_window_def)
next
  case False
  then show ?thesis
    using remove_rem [of "g_bird g" A "g_pipes g" "[]"]
    by (simp add: main_tick_def pipe_loop_eq Let_def draw_window_def)
qed

lemma tick_bird: "main_tick A inp g = Inr g' \<Longrightarrow> g_bird g' = bird_draw (g_bird g)"
  unfolding main_tick_eq by auto

lemma tick_base: "main_tick A inp g = Inr g' \<Longrightarrow> g_base g' = base_move A (g_base g)"
  unfolding main_tick_eq by auto

lemma main_loop_stopped: "\<not> g_run g \<Longrightarrow> main_loop A g inps = Inr g"
  by (cases inps) simp_all

lemma main_loop_snoc:
  "main_loop A g (inps @ [inp]) =
     (case main_loop A g inps of
        Inl e \<Rightarrow> Inl e
      | Inr g' \<Rightarrow> if g_run g' then main_tick A inp g' else Inr g')"
proof (induction inps arbitrary: g)
  case Nil
  show ?case by (simp add: main_tick_eq)
next
  case (Cons i inps)
  show ?case
  proof (cases "g_run g")
    case True
    obtain g1 where "main_tick A i g = Inr g1" by (simp add: main_tick_eq)
    with True Cons.IH [of g1] show ?thesis by simp
  next
    case False
    then show ?thesis by simp
  qed
qed

lemma Pipe_init_fields:
  "pipe_x (Pipe_init A x r) = x" "\<not> pipe_passed (Pipe_init A x r)"
  by (simp_all add: Pipe_init_def set_height_def Let_def)

lemma bird_draw_x: "bird_x (bird_draw b) = bird_x b"
  by (simp add: bird_draw_def Let_def)

text \<open>
  The first 75 iterations of a run without events: the first pipe comes from 600 down to
  225 and nothing else happens to the pipes or the score.
\<close>

lemma first_approach:
  assumes "n \<le> 75"
  shows "main_loop A (main_init A r0) (replicate n (no_events r)) =
     Inr \<lparr>g_bird = (bird_draw ^^ n) (Bird_init 230 (PyInt 350)),
          g_base = (base_move A ^^ n) (Base_init A 730),
          g_pipes = [(Pipe_init A 600 r0)\<lparr>pipe_x := 600 - 5 * int n\<rparr>],
          g_score = 0, g_run = True\<rparr>"
  using assms
proof (induction n)
  case 0
  show ?case by (simp add: main_init_def Pipe_init_fields)
next
  case (Suc n)
  have bx: "bird_x ((bird_draw ^^ n) (Bird_init 230 (PyInt 350))) = 230"
    by (induction n) (simp_all add: bird_draw_x Bird_init_def)
  have r: "replicate (Suc n) (no_events r) = replicate n (no_events r) @ [no_events r]"
    by (simp add: replicate_append_same)
  from Suc have far: "230 \<le> 600 - 5 * int n" by simp
  from Suc have "main_loop A (main_init A r0) (replicate n (no_events r)) =
     Inr \<lparr>g_bird = (bird_draw ^^ n) (Bird_init 230 (PyInt 350)),
          g_base = (base_move A ^^ n) (Base_init A 730),
          g_pipes = [(Pipe_init A 600 r0)\<lparr>pipe_x := 600 - 5 * int n\<rparr>],
          g_score = 0, g_run = True\<rparr>"
    by simp
  then show ?case
    unfolding r main_loop_snoc using far bx
    by (simp add: main_tick_eq pipe_gone_def pipe_passes_def pipe_after_def pipe_move_def
        PIPE_VEL_def no_events_def Pipe_init_fields algebra_simps)
qed

section \<open>Retiring pipes\<close>

text \<open>
  C7. One iteration of the game loop never fails, and the pipes it leaves are, in their
  order, the advanced pipes of those that did not satisfy \<open>x + width < 0\<close> when the loop
  looked at them, followed by the new pipe if one was added: a pipe is removed exactly when
  \<open>x + width < 0\<close> held for it.
\<close>

theorem pipes_removed_when_off_screen:
  "\<exists>g'. main_tick A inp g = Inr g' \<and>
     g_pipes g' =
       map (pipe_after (g_bird g))
         (filter (\<lambda>p. \<not> pipe_x p + int (s_width (PIPE_TOP A)) < 0) (g_pipes g)) @
       (if \<exists>p\<in>set (g_pipes g). pipe_passes (g_bird g) p
        then [Pipe_init A 600 (rnd inp)] else [])"
  by (simp add: main_tick_eq pipe_gone_fun)

text \<open>
  A state with a pipe at -110, whose right edge at -6 has left the window, and an unpassed
  pipe at 225: the first is removed, the second is kept, marked and advanced, and a new
  pipe follows it.
\<close>

theorem pipes_removed_when_off_screen_witness:
  "\<exists>g'. main_tick sample_assets (no_events 7)
          \<lparr>g_bird = Bird_init 230 (PyInt 350), g_base = Base_init sample_assets 730,
           g_pipes = [\<lparr>pipe_x = - 110, pipe_height = 100, pipe_top = - 540, pipe_bottom = 300,
                        pipe_passed = True\<rparr>,
                      \<lparr>pipe_x = 225, pipe_height = 53, pipe_top = - 587, pipe_bottom = 253,
                        pipe_passed = False\<rparr>],
           g_score = 1, g_run = True\<rparr> = Inr g' \<and>
     g_pipes g' =
       [\<lparr>pipe_x = 220, pipe_height = 53, pipe_top = - 587, pipe_bottom = 253,
          pipe_passed = True\<rparr>,
        \<lparr>pipe_x = 600, pipe_height = 57, pipe_top = - 583, pipe_bottom = 257,
          pipe_passed = False\<rparr>]"
  using pipes_removed_when_off_screen [of sample_assets "no_events 7"
      "\<lparr>g_bird = Bird_init 230 (PyInt 350), g_base = Base_init sample_assets 730,
           g_pipes = [\<lparr>pipe_x = - 110, pipe_height = 100, pipe_top = - 540, pipe_bottom = 300,
                        pipe_passed = True\<rparr>,
                      \<lparr>pipe_x = 225, pipe_height = 53, pipe_top = - 587, pipe_bottom = 253,
                        pipe_passed = False\<rparr>],
           g_score = 1, g_run = True\<rparr>"]
  by (simp add: pipe_after_def pipe_passes_def pipe_move_def PIPE_VEL_def PIPE_TOP_def
      flip_def sample_assets_def Bird_init_def no_events_def Pipe_init_def set_height_def
      randrange_def GAP_def Let_def)

section \<open>Passing pipes, the score and new pipes\<close>

lemma game_inv_init: "game_inv (main_init A r0)"
  by (simp add: game_inv_def main_init_def Bird_init_def Pipe_init_fields)

lemma game_inv_split:
  assumes "game_inv g"
  shows "\<exists>qs l. g_pipes g = qs @ [l] \<and> (\<forall>q\<in>set qs. pipe_passed q) \<and>
           \<not> pipe_passed l \<and> 225 \<le> pipe_x l \<and> bird_x (g_bird g) = 230"
proof -
  from assms have "g_pipes g = butlast (g_pipes g) @ [last (g_pipes g)]"
    by (simp add: game_inv_def)
  moreover from assms have "\<forall>q\<in>set (butlast (g_pipes g)). pipe_passed q"
    by (simp add: game_inv_def list_all_iff)
  ultimately show ?thesis using assms unfolding game_inv_def by blast
qed

lemma newly_passing:
  assumes "g_pipes g = qs @ [l]" "\<forall>q\<in>set qs. pipe_passed q"
  shows "filter (pipe_passes (g_bird g)) (g_pipes g) =
     (if pipe_passes (g_bird g) l then [l] else [])"
  using assms by (auto simp add: pipe_passes_def filter_empty_conv)

text \<open>
  The pipe list of \<open>main\<close> ends with the only pipe that is not passed yet, which is at 225
  or to the right of it; one iteration keeps it so.
\<close>

lemma game_inv_tick:
  assumes "game_inv g" "main_tick A inp g = Inr g'"
  shows "game_inv g'"
proof -
  from game_inv_split [OF assms(1)]
  obtain qs l where s: "g_pipes g = qs @ [l]" "\<forall>q\<in>set qs. pipe_passed q"
    "\<not> pipe_passed l" "225 \<le> pipe_x l" "bird_x (g_bird g) = 230"
    by blast
  have ng: "\<not> pipe_gone A l" using s(4) by (simp add: pipe_gone_def)
  define K where "K = map (pipe_after (g_bird g)) (filter (\<lambda>p. \<not> pipe_gone A p) qs)"
  have old: "\<forall>q\<in>set K. pipe_passed q"
    using s(2) by (simp add: K_def pipe_after_passed)
  have ex: "(\<exists>p\<in>set (g_pipes g). pipe_passes (g_bird g) p) \<longleftrightarrow> pipe_x l < 230"
    using s by (auto simp add: pipe_passes_def)
  have kept: "map (pipe_after (g_bird g)) (filter (\<lambda>p. \<not> pipe_gone A p) (g_pipes g)) =
                K @ [pipe_after (g_bird g) l]"
    using s(1) ng by (simp add: K_def)
  from assms(2) have b': "g_bird g' = bird_draw (g_bird g)"
    and p': "g_pipes g' = (K @ [pipe_after (g_bird g) l]) @
                    (if pipe_x l < 230 then [Pipe_init A 600 (rnd inp)] else [])"
    unfolding main_tick_eq ex kept by auto
  show ?thesis
  proof (cases "pipe_x l < 230")
    case True
    then have "g_pipes g' = (K @ [pipe_after (g_bird g) l]) @ [Pipe_init A 600 (rnd inp)]"
      by (simp add: p')
    then have "butlast (g_pipes g') = K @ [pipe_after (g_bird g) l]"
      and "last (g_pipes g') = Pipe_init A 600 (rnd inp)" and "g_pipes g' \<noteq> []"
      by (simp_all add: butlast_append)
    with True old s(5) show ?thesis
      by (simp add: game_inv_def b' bird_draw_x Pipe_init_fields list_all_iff pipe_after_passed)
  next
    case False
    then have "g_pipes g' = K @ [pipe_after (g_bird g) l]"
      by (simp add: p')
    then have "butlast (g_pipes g') = K"
      and "last (g_pipes g') = pipe_after (g_bird g) l" and "g_pipes g' \<noteq> []"
      by simp_all
    with False old s(3,4,5) show ?thesis
      by (simp add: game_inv_def b' bird_draw_x list_all_iff pipe_after_passed pipe_after_x)
  qed
qed

lemma game_inv_loop:
  assumes "game_inv g" "main_loop A g inps = Inr g'"
  shows "game_inv g'"
  using assms
proof (induction inps arbitrary: g)
  case Nil
  then show ?case by simp
next
  case (Cons inp inps)
  show ?case
  proof (cases "g_run g")
    case True
    obtain g1 where g1: "main_tick A inp g = Inr g1" by (simp add: main_tick_eq)
    with Cons.prems(1) have "game_inv g1" by (rule game_inv_tick)
    moreover from Cons.prems(2) True g1 have "main_loop A g1 inps = Inr g'" by simp
    ultimately show ?thesis by (rule Cons.IH)
  next
    case False
    with Cons.prems show ?thesis by simp
  qed
qed

text \<open>
  C3. Let \<open>g\<close> be a state that the game loop reaches from the start of \<open>main\<close>, and
  \<open>newly\<close> its pipes that are not passed and lie left of the bird, whose \<open>x\<close> is 230. There
  is at most one such pipe. The next iteration does not fail; it adds to the score the
  number of these pipes, appends that many new pipes, each at \<open>x = 600\<close> and not passed,
  after the pipes it keeps, and leaves every pipe of \<open>newly\<close> in the list, marked as passed
  and advanced by 5. The score does not decrease.
\<close>

theorem score_and_spawn_on_pass:
  assumes "main_loop A (main_init A r0) inps = Inr g"
  shows "\<exists>g'. main_tick A inp g = Inr g' \<and>
     (let newly = filter (pipe_passes (g_bird g)) (g_pipes g) in
        bird_x (g_bird g) = 230 \<and>
        length newly \<le> 1 \<and>
        g_score g' = g_score g + int (length newly) \<and>
        g_pipes g' =
          map (pipe_after (g_bird g)) (filter (\<lambda>p. \<not> pipe_gone A p) (g_pipes g)) @
          replicate (length newly) (Pipe_init A 600 (rnd inp)) \<and>
        (\<forall>p\<in>set newly. p\<lparr>pipe_x := pipe_x p - 5, pipe_passed := True\<rparr> \<in> set (g_pipes g')) \<and>
        pipe_x (Pipe_init A 600 (rnd inp)) = 600 \<and>
        \<not> pipe_passed (Pipe_init A 600 (rnd inp)) \<and>
        g_score g \<le> g_score g')"
proof -
  have inv: "game_inv g"
    using game_inv_init assms by (rule game_inv_loop)
  from game_inv_split [OF inv]
  obtain qs l where s: "g_pipes g = qs @ [l]" "\<forall>q\<in>set qs. pipe_passed q"
    "\<not> pipe_passed l" "225 \<le> pipe_x l" "bird_x (g_bird g) = 230"
    by blast
  have newly: "filter (pipe_passes (g_bird g)) (g_pipes g) =
      (if pipe_passes (g_bird g) l then [l] else [])"
    using s(1,2) by (rule newly_passing)
  have ng: "\<not> pipe_gone A l" using s(4) by (simp add: pipe_gone_def)
  have after: "pipe_passes (g_bird g) l \<Longrightarrow>
      pipe_after (g_bird g) l = l\<lparr>pipe_x := pipe_x l - 5, pipe_passed := True\<rparr>"
    by (simp add: pipe_after_def pipe_move_def PIPE_VEL_def)
  have nq: "\<forall>p\<in>set qs. \<not> pipe_passes (g_bird g) p"
    using s(2) by (simp add: pipe_passes_def)
  obtain g' where g': "main_tick A inp g = Inr g'"
    by (simp add: main_tick_eq)
  then have pipes': "g_pipes g' =
      map (pipe_after (g_bird g)) (filter (\<lambda>p. \<not> pipe_gone A p) (g_pipes g)) @
        (if pipe_passes (g_bird g) l then [Pipe_init A 600 (rnd inp)] else [])"
    and score': "g_score g' = g_score g + (if pipe_passes (g_bird g) l then 1 else 0)"
    unfolding main_tick_eq using s(1) nq by auto
  have l_in: "pipe_after (g_bird g) l \<in> set (g_pipes g')"
    using s(1) ng by (simp add: pipes')
  have "length (filter (pipe_passes (g_bird g)) (g_pipes g)) \<le> 1"
    by (simp add: newly)
  moreover have "g_score g' = g_score g + int (length (filter (pipe_passes (g_bird g)) (g_pipes g)))"
    by (simp add: newly score')
  moreover have "g_pipes g' =
      map (pipe_after (g_bird g)) (filter (\<lambda>p. \<not> pipe_gone A p) (g_pipes g)) @
      replicate (length (filter (pipe_passes (g_bird g)) (g_pipes g))) (Pipe_init A 600 (rnd inp))"
    by (simp add: newly pipes')
  moreover have "\<forall>p\<in>set (filter (pipe_passes (g_bird g)) (g_pipes g)).
      p\<lparr>pipe_x := pipe_x p - 5, pipe_passed := True\<rparr> \<in> set (g_pipes g')"
    unfolding newly using l_in after by auto
  moreover have "g_score g \<le> g_score g'"
    by (simp add: score')
  ultimately show ?thesis
    using g' s(5) by (simp add: Let_def Pipe_init_fields)
qed

text \<open>
  After 75 iterations without events the first pipe is at 225, left of the bird: the 76th
  iteration passes it, takes the score from 0 to 1 and appends a pipe at 600.
\<close>

theorem score_and_spawn_on_pass_witness:
  "\<exists>g g'. main_loop sample_assets (main_init sample_assets 3) (replicate 75 (no_events 7)) = Inr g \<and>
     main_tick sample_assets (no_events 7) g = Inr g' \<and>
     length (filter (pipe_passes (g_bird g)) (g_pipes g)) = 1 \<and>
     g_score g' = g_score g + 1 \<and>
     map pipe_x (g_pipes g') = [220, 600] \<and>
     map pipe_passed (g_pipes g') = [True, False]"
proof -
  define g where "g = \<lparr>g_bird = (bird_draw ^^ 75) (Bird_init 230 (PyInt 350)),
          g_base = (base_move sample_assets ^^ 75) (Base_init sample_assets 730),
          g_pipes = [(Pipe_init sample_assets 600 3)\<lparr>pipe_x := 600 - 5 * int 75\<rparr>],
          g_score = 0, g_run = True\<rparr>"
  have reach: "main_loop sample_assets (main_init sample_assets 3) (replicate 75 (no_events 7)) = Inr g"
    unfolding g_def by (rule first_approach) simp
  from score_and_spawn_on_pass [OF reach, of "no_events 7"]
  obtain g' where t: "main_tick sample_assets (no_events 7) g = Inr g'"
    and c: "(let newly = filter (pipe_passes (g_bird g)) (g_pipes g) in
        bird_x (g_bird g) = 230 \<and>
        length newly \<le> 1 \<and>
        g_score g' = g_score g + int (length newly) \<and>
        g_pipes g' =
          map (pipe_after (g_bird g)) (filter (\<lambda>p. \<not> pipe_gone sample_assets p) (g_pipes g)) @
          replicate (length newly) (Pipe_init sample_assets 600 (rnd (no_events 7))) \<and>
        (\<forall>p\<in>set newly. p\<lparr>pipe_x := pipe_x p - 5, pipe_passed := True\<rparr> \<in> set (g_pipes g')) \<and>
        pipe_x (Pipe_init sample_assets 600 (rnd (no_events 7))) = 600 \<and>
        \<not> pipe_passed (Pipe_init sample_assets 600 (rnd (no_events 7))) \<and>
        g_score g \<le> g_score g')"
    by blast
  from c have bx: "bird_x (g_bird g) = 230" by (simp add: Let_def)
  have ps: "g_pipes g = [(Pipe_init sample_assets 600 3)\<lparr>pipe_x := 225\<rparr>]"
    by (simp add: g_def)
  have newly: "filter (pipe_passes (g_bird g)) (g_pipes g) = g_pipes g"
    by (simp add: ps bx pipe_passes_def Pipe_init_fields)
  have "\<not> pipe_gone sample_assets ((Pipe_init sample_assets 600 3)\<lparr>pipe_x := 225\<rparr>)"
    by (simp add: pipe_gone_def)
  with c have "g_score g' = g_score g + 1 \<and> map pipe_x (g_pipes g') = [220, 600] \<and>
     map pipe_passed (g_pipes g') = [True, False]"
    unfolding newly Let_def
    by (simp add: ps bx pipe_after_def pipe_passes_def pipe_move_def PIPE_VEL_def Pipe_init_fields)
  with reach t newly ps show ?thesis by auto
qed

section \<open>The geometry of a pipe\<close>

lemma pipe_ok_init: "pipe_ok A (Pipe_init A x r)"
  by (simp add: pipe_ok_def Pipe_init_def set_height_def Let_def randrange_def GAP_def)

lemma pipe_ok_set_height: "pipe_ok A (set_height A r p)"
  by (simp add: pipe_ok_def set_height_def Let_def randrange_def GAP_def)

lemma pipe_ok_after: "pipe_ok A p \<Longrightarrow> pipe_ok A (pipe_after b p)"
  by (simp add: pipe_ok_def pipe_after_def pipe_move_def)

lemma pipes_ok_tick:
  assumes "pipes_ok A g" "main_tick A inp g = Inr g'"
  shows "pipes_ok A g'"
proof -
  from assms(2) have "g_pipes g' =
      map (pipe_after (g_bird g)) (filter (\<lambda>p. \<not> pipe_gone A p) (g_pipes g)) @
        (if \<exists>p\<in>set (g_pipes g). pipe_passes (g_bird g) p
         then [Pipe_init A 600 (rnd inp)] else [])"
    unfolding main_tick_eq by auto
  with assms(1) show ?thesis
    by (auto simp add: pipes_ok_def list_all_iff pipe_ok_after pipe_ok_init)
qed

lemma pipes_ok_loop:
  assumes "pipes_ok A g" "main_loop A g inps = Inr g'"
  shows "pipes_ok A g'"
  using assms
proof (induction inps arbitrary: g)
  case Nil
  then show ?case by simp
next
  case (Cons inp inps)
  show ?case
  proof (cases "g_run g")
    case True
    obtain g1 where g1: "main_tick A inp g = Inr g1" by (simp add: main_tick_eq)
    with Cons.prems(1) have "pipes_ok A g1" by (rule pipes_ok_tick)
    moreover from Cons.prems(2) True g1 have "main_loop A g1 inps = Inr g'" by simp
    ultimately show ?thesis by (rule Cons.IH)
  next
    case False
    with Cons.prems show ?thesis by simp
  qed
qed

text \<open>
  C6. A pipe as its constructor or \<open>set_height\<close> leaves it has its height in [50, 450),
  and \<open>top + height of PIPE_TOP = height = bottom - GAP\<close>. \<open>Pipe.move\<close> and the marking
  as passed keep that, and every pipe of every state that the game loop reaches from the
  start of \<open>main\<close> has it.
\<close>

theorem pipe_gap_geometry:
  "pipe_ok A (Pipe_init A x r) \<and> pipe_ok A (set_height A r p) \<and>
   (pipe_ok A p \<longrightarrow> pipe_ok A (pipe_move p) \<and> pipe_ok A (p\<lparr>pipe_passed := True\<rparr>)) \<and>
   (main_loop A (main_init A r0) inps = Inr g \<longrightarrow> (\<forall>q\<in>set (g_pipes g). pipe_ok A q))"
proof -
  have "pipes_ok A (main_init A r0)"
    by (simp add: pipes_ok_def main_init_def pipe_ok_init)
  then have "main_loop A (main_init A r0) inps = Inr g \<Longrightarrow> pipes_ok A g"
    by (rule pipes_ok_loop)
  then have "main_loop A (main_init A r0) inps = Inr g \<longrightarrow> (\<forall>q\<in>set (g_pipes g). pipe_ok A q)"
    by (simp add: pipes_ok_def list_all_iff)
  moreover have "pipe_ok A p \<longrightarrow> pipe_ok A (pipe_move p) \<and> pipe_ok A (p\<lparr>pipe_passed := True\<rparr>)"
    by (simp add: pipe_ok_def pipe_move_def)
  ultimately show ?thesis
    using pipe_ok_init pipe_ok_set_height by blast
qed

text \<open>
  The pipe built at 600 from the draw 3 has the height 53, hence the top at 53 - 640 and
  the bottom at 253; it keeps them when it moves and through 75 iterations of the loop.
\<close>

theorem pipe_gap_geometry_witness:
  "Pipe_init sample_assets 600 3 =
     \<lparr>pipe_x = 600, pipe_height = 53, pipe_top = - 587, pipe_bottom = 253, pipe_passed = False\<rparr> \<and>
   pipe_ok sample_assets (Pipe_init sample_assets 600 3) \<and>
   pipe_ok sample_assets (pipe_move (Pipe_init sample_assets 600 3)) \<and>
   pipe_ok sample_assets ((Pipe_init sample_assets 600 3)\<lparr>pipe_x := 225\<rparr>)"
proof -
  have reach: "main_loop sample_assets (main_init sample_assets 3) (replicate 75 (no_events 7)) =
     Inr \<lparr>g_bird = (bird_draw ^^ 75) (Bird_init 230 (PyInt 350)),
          g_base = (base_move sample_assets ^^ 75) (Base_init sample_assets 730),
          g_pipes = [(Pipe_init sample_assets 600 3)\<lparr>pipe_x := 600 - 5 * int 75\<rparr>],
          g_score = 0, g_run = True\<rparr>"
    by (rule first_approach) simp
  have v: "Pipe_init sample_assets 600 3 =
     \<lparr>pipe_x = 600, pipe_height = 53, pipe_top = - 587, pipe_bottom = 253, pipe_passed = False\<rparr>"
    by (simp add: Pipe_init_def set_height_def randrange_def GAP_def PIPE_TOP_def flip_def
        sample_assets_def Let_def)
  from pipe_gap_geometry [of sample_assets 600 3 "Pipe_init sample_assets 600 3" 3
      "replicate 75 (no_events 7)"
      "\<lparr>g_bird = (bird_draw ^^ 75) (Bird_init 230 (PyInt 350)),
          g_base = (base_move sample_assets ^^ 75) (Base_init sample_assets 730),
          g_pipes = [(Pipe_init sample_assets 600 3)\<lparr>pipe_x := 600 - 5 * int 75\<rparr>],
          g_score = 0, g_run = True\<rparr>"] reach
  have "pipe_ok sample_assets (Pipe_init sample_assets 600 3) \<and>
   pipe_ok sample_assets (pipe_move (Pipe_init sample_assets 600 3)) \<and>
   pipe_ok sample_assets ((Pipe_init sample_assets 600 3)\<lparr>pipe_x := 225\<rparr>)"
    by simp
  with v show ?thesis by blast
qed

section \<open>The bird in the game loop\<close>

lemma bird_draw_kinematic:
  "bird_x (bird_draw b) = bird_x b \<and> bird_y (bird_draw b) = bird_y b \<and>
   bird_vel (bird_draw b) = bird_vel b \<and> bird_tilt (bird_draw b) = bird_tilt b \<and>
   bird_tick_count (bird_draw b) = bird_tick_count b \<and>
   bird_height (bird_draw b) = bird_height b"
  by (simp add: bird_draw_def Let_def)

lemma loop_bird:
  "\<exists>g'. main_loop A g inps = Inr g' \<and> same_kinematics (g_bird g) (g_bird g')"
proof (induction inps arbitrary: g)
  case Nil
  show ?case by (simp add: same_kinematics_def)
next
  case (Cons inp inps)
  show ?case
  proof (cases "g_run g")
    case True
    obtain g1 where g1: "main_tick A inp g = Inr g1" by (simp add: main_tick_eq)
    then have b1: "g_bird g1 = bird_draw (g_bird g)" by (rule tick_bird)
    from Cons.IH [of g1] obtain g' where
      "main_loop A g1 inps = Inr g'" "same_kinematics (g_bird g1) (g_bird g')" by blast
    with True g1 b1 show ?thesis
      by (simp add: same_kinematics_def bird_draw_kinematic)
  next
    case False
    then show ?thesis by (simp add: same_kinematics_def)
  qed
qed

text \<open>
  C10. One iteration of the game loop, in any state, does not fail and does to the bird
  what \<open>Bird.draw\<close> does and nothing else, so the bird's \<open>x\<close>, \<open>y\<close>, velocity, tilt, tick
  count and jump height are what they were. After any number of iterations from the start
  of \<open>main\<close> the bird is at (230, 350) with velocity 0, tilt 0, tick count 0 and jump
  height 350.
\<close>

theorem bird_untouched_by_loop:
  "(\<exists>g'. main_tick A inp g = Inr g' \<and> g_bird g' = bird_draw (g_bird g) \<and>
      same_kinematics (g_bird g) (g_bird g')) \<and>
   (\<exists>h. main_loop A (main_init A r0) inps = Inr h \<and>
      bird_x (g_bird h) = 230 \<and> bird_y (g_bird h) = PyInt 350 \<and>
      bird_vel (g_bird h) = PyInt 0 \<and>
      bird_tilt (g_bird h) = 0 \<and> bird_tick_count (g_bird h) = 0 \<and>
      bird_height (g_bird h) = PyInt 350)"
proof
  obtain g1 where g1: "main_tick A inp g = Inr g1" by (simp add: main_tick_eq)
  then have "g_bird g1 = bird_draw (g_bird g)" by (rule tick_bird)
  with g1 show "\<exists>g'. main_tick A inp g = Inr g' \<and> g_bird g' = bird_draw (g_bird g) \<and>
      same_kinematics (g_bird g) (g_bird g')"
    by (simp add: same_kinematics_def bird_draw_kinematic)
next
  from loop_bird [of A "main_init A r0" inps] obtain h where
    "main_loop A (main_init A r0) inps = Inr h"
    "same_kinematics (g_bird (main_init A r0)) (g_bird h)" by blast
  then show "\<exists>h. main_loop A (main_init A r0) inps = Inr h \<and>
      bird_x (g_bird h) = 230 \<and> bird_y (g_bird h) = PyInt 350 \<and>
      bird_vel (g_bird h) = PyInt 0 \<and>
      bird_tilt (g_bird h) = 0 \<and> bird_tick_count (g_bird h) = 0 \<and>
      bird_height (g_bird h) = PyInt 350"
    by (simp add: same_kinematics_def main_init_def Bird_init_def)
qed

text \<open>
  C4, as the code has it. After the first iteration of the game loop the bird of \<open>main\<close>
  is still at \<open>y = 350\<close> with tilt 0, since the loop does not call \<open>Bird.move\<close>. One call
  of \<open>Bird.move\<close> on that new bird takes \<open>y\<close> to 351.5 and the tilt to 25: the bird is less
  than 50 below the height it started from, which is the rising branch.
\<close>

theorem first_tick:
  "(\<exists>g'. main_loop A (main_init A r0) [inp] = Inr g' \<and>
      bird_y (g_bird g') = PyInt 350 \<and> bird_tilt (g_bird g') = 0) \<and>
   bird_y (bird_move (Bird_init 230 (PyInt 350))) = PyFloat 351.5 \<and>
   bird_tilt (bird_move (Bird_init 230 (PyInt 350))) = 25"
proof -
  have "\<exists>g'. main_loop A (main_init A r0) [inp] = Inr g' \<and>
      bird_y (g_bird g') = PyInt 350 \<and> bird_tilt (g_bird g') = 0"
    by (simp add: main_tick_eq main_init_def Bird_init_def bird_draw_kinematic)
  moreover have "bird_y (bird_move (Bird_init 230 (PyInt 350))) = PyFloat 351.5 \<and>
      bird_tilt (bird_move (Bird_init 230 (PyInt 350))) = 25"
    by (simp add: bird_move_unfold first_displacement)
      (simp add: Bird_init_def MAX_ROTATION_def py_less_def binary64_exact)
  ultimately show ?thesis by blast
qed

text \<open>
  The first iteration of the loop on the sample assets, computed from the definitions
  alone: \<open>y\<close> has not grown by 1.5 and the tilt has not moved; and the tilt of a new bird
  after one \<open>Bird.move\<close> is 25, not -20.
\<close>

theorem first_tick_counterexample:
  "main_loop sample_assets (main_init sample_assets 0) [no_events 0] =
     Inr \<lparr>g_bird = \<lparr>bird_x = 230, bird_y = PyInt 350, bird_tilt = 0, bird_tick_count = 0,
                     bird_vel = PyInt 0, bird_height = PyInt 350, bird_img_count = 1,
                     bird_img = 0\<rparr>,
          g_base = \<lparr>base_y = 730, base_x1 = - 5, base_x2 = 667\<rparr>,
          g_pipes = [\<lparr>pipe_x = 595, pipe_height = 50, pipe_top = - 590, pipe_bottom = 250,
                      pipe_passed = False\<rparr>],
          g_score = 0, g_run = True\<rparr>
   \<and> bird_tilt (bird_move (Bird_init 230 (PyInt 350))) = 25"
proof -
  have "main_loop sample_assets (main_init sample_assets 0) [no_events 0] =
     Inr \<lparr>g_bird = \<lparr>bird_x = 230, bird_y = PyInt 350, bird_tilt = 0, bird_tick_count = 0,
                     bird_vel = PyInt 0, bird_height = PyInt 350, bird_img_count = 1,
                     bird_img = 0\<rparr>,
          g_base = \<lparr>base_y = 730, base_x1 = - 5, base_x2 = 667\<rparr>,
          g_pipes = [\<lparr>pipe_x = 595, pipe_height = 50, pipe_top = - 590, pipe_bottom = 250,
                      pipe_passed = False\<rparr>],
          g_score = 0, g_run = True\<rparr>"
    by (simp add: main_tick_def main_init_def sample_assets_def no_events_def
        Bird_init_def Base_init_def Pipe_init_def set_height_def randrange_def GAP_def
        PIPE_TOP_def PIPE_BOTTOM_def flip_def WIDTH_def base_move_def BASE_VEL_def
        draw_window_def bird_draw_def ANIMATION_TIME_def pipe_move_def PIPE_VEL_def
        collide_def get_mask_def BIRD_IMGS_def from_surface_def overlap_def Let_def)
  moreover have "bird_tilt (bird_move (Bird_init 230 (PyInt 350))) = 25"
    by (simp add: bird_move_unfold first_displacement)
      (simp add: Bird_init_def MAX_ROTATION_def py_less_def binary64_exact)
  ultimately show ?thesis by (rule conjI)
qed

section \<open>The floor over a run\<close>

lemma base_move_x1:
  "base_x1 (base_move A s) =
     (if base_x1 s - 5 + WIDTH A < 0 then base_x2 s - 5 + WIDTH A else base_x1 s - 5)"
  by (simp add: base_move_def Let_def BASE_VEL_def)

lemma base_move_x2:
  "base_x2 (base_move A s) =
     (if base_x2 s - 5 + WIDTH A < 0 then base_x1 (base_move A s) + WIDTH A else base_x2 s - 5)"
  by (simp add: base_move_def Let_def BASE_VEL_def)

lemma WIDTH_nonneg: "0 \<le> WIDTH A"
  by (simp add: WIDTH_def)

lemma base_tiled_init: "base_tiled A (Base_init A y)"
  by (simp add: base_tiled_def Base_init_def WIDTH_nonneg)

lemma base_covers_init: "base_covers A (Base_init A y)"
  by (simp add: base_covers_def Base_init_def WIDTH_nonneg)

lemma base_tiled_move: "base_tiled A s \<Longrightarrow> base_tiled A (base_move A s)"
  unfolding base_tiled_def base_move_x2 base_move_x1 using WIDTH_nonneg [of A]
  by (simp split: if_splits)

lemma base_covers_move:
  assumes "5 \<le> WIDTH A" "base_tiled A s" "base_covers A s"
  shows "base_covers A (base_move A s)"
  using assms unfolding base_tiled_def base_covers_def base_move_x2 base_move_x1
  by (simp add: min_def split: if_splits)

lemma base_tiled_funpow: "base_tiled A ((base_move A ^^ n) (Base_init A y))"
  by (induction n) (simp_all add: base_tiled_init base_tiled_move)

lemma base_covers_funpow:
  "5 \<le> WIDTH A \<Longrightarrow> base_covers A ((base_move A ^^ n) (Base_init A y))"
  by (induction n) (simp_all add: base_covers_init base_covers_move base_tiled_funpow)

lemma base_tiled_loop:
  assumes "base_tiled A (g_base g)" "main_loop A g inps = Inr g'"
  shows "base_tiled A (g_base g')"
  using assms
proof (induction inps arbitrary: g)
  case Nil
  then show ?case by simp
next
  case (Cons inp inps)
  show ?case
  proof (cases "g_run g")
    case True
    obtain g1 where g1: "main_tick A inp g = Inr g1" by (simp add: main_tick_eq)
    then have "g_base g1 = base_move A (g_base g)" by (rule tick_base)
    with Cons.prems(1) have "base_tiled A (g_base g1)" by (simp add: base_tiled_move)
    moreover from Cons.prems(2) True g1 have "main_loop A g1 inps = Inr g'" by simp
    ultimately show ?thesis by (rule Cons.IH)
  next
    case False
    with Cons.prems show ?thesis by simp
  qed
qed

text \<open>
  C8. \<open>Base.move\<close> takes 5 from both offsets; the first is then set to the second plus the
  width exactly when its own right edge is below 0, and after that the second is set to
  the first plus the width exactly when its own right edge is below 0. After any number of
  moves of a new floor, and in every state that the game loop reaches from the start of
  \<open>main\<close>, the two offsets differ by exactly the width; and when the width is at least
  the velocity 5, the left segment starts at or before 0 and ends at or after 0, so the two
  segments cover everything from 0 to the width.
\<close>

theorem floor_segments_tile:
  "base_x1 (base_move A s) =
     (if base_x1 s - 5 + WIDTH A < 0 then base_x2 s - 5 + WIDTH A else base_x1 s - 5) \<and>
   base_x2 (base_move A s) =
     (if base_x2 s - 5 + WIDTH A < 0 then base_x1 (base_move A s) + WIDTH A else base_x2 s - 5) \<and>
   \<bar>base_x1 ((base_move A ^^ n) (Base_init A y)) - base_x2 ((base_move A ^^ n) (Base_init A y))\<bar>
     = WIDTH A \<and>
   (5 \<le> WIDTH A \<longrightarrow>
      min (base_x1 ((base_move A ^^ n) (Base_init A y))) (base_x2 ((base_move A ^^ n) (Base_init A y))) \<le> 0 \<and>
      0 \<le> min (base_x1 ((base_move A ^^ n) (Base_init A y))) (base_x2 ((base_move A ^^ n) (Base_init A y)))
            + WIDTH A) \<and>
   (main_loop A (main_init A r0) inps = Inr g \<longrightarrow>
      \<bar>base_x1 (g_base g) - base_x2 (g_base g)\<bar> = WIDTH A)"
proof -
  have "base_tiled A (g_base (main_init A r0))"
    by (simp add: main_init_def base_tiled_init)
  then have "main_loop A (main_init A r0) inps = Inr g \<longrightarrow> base_tiled A (g_base g)"
    using base_tiled_loop by blast
  then show ?thesis
    using base_move_x1 [of A s] base_move_x2 [of A s] base_tiled_funpow [of A n y]
      base_covers_funpow [of A n y]
    unfolding base_tiled_def base_covers_def by blast
qed

text \<open>
  With the floor image 672 wide: a floor at (-670, 2) moves to (669, -3), the first
  segment wrapping behind the second; and after 75 iterations of the loop the two offsets
  are 672 apart with the left one at or before 0.
\<close>

theorem floor_segments_tile_witness:
  "5 \<le> WIDTH sample_assets \<and>
   main_loop sample_assets (main_init sample_assets 3) (replicate 75 (no_events 7)) =
     Inr \<lparr>g_bird = (bird_draw ^^ 75) (Bird_init 230 (PyInt 350)),
          g_base = (base_move sample_assets ^^ 75) (Base_init sample_assets 730),
          g_pipes = [(Pipe_init sample_assets 600 3)\<lparr>pipe_x := 600 - 5 * int 75\<rparr>],
          g_score = 0, g_run = True\<rparr> \<and>
   base_x1 (base_move sample_assets \<lparr>base_y = 730, base_x1 = - 670, base_x2 = 2\<rparr>) = 669 \<and>
   base_x2 (base_move sample_assets \<lparr>base_y = 730, base_x1 = - 670, base_x2 = 2\<rparr>) = - 3 \<and>
   \<bar>base_x1 ((base_move sample_assets ^^ 75) (Base_init sample_assets 730)) -
      base_x2 ((base_move sample_assets ^^ 75) (Base_init sample_assets 730))\<bar> = 672 \<and>
   min (base_x1 ((base_move sample_assets ^^ 75) (Base_init sample_assets 730)))
       (base_x2 ((base_move sample_assets ^^ 75) (Base_init sample_assets 730))) \<le> 0"
proof -
  have w: "WIDTH sample_assets = 672"
    by (simp add: WIDTH_def sample_assets_def)
  have reach: "main_loop sample_assets (main_init sample_assets 3) (replicate 75 (no_events 7)) =
     Inr \<lparr>g_bird = (bird_draw ^^ 75) (Bird_init 230 (PyInt 350)),
          g_base = (base_move sample_assets ^^ 75) (Base_init sample_assets 730),
          g_pipes = [(Pipe_init sample_assets 600 3)\<lparr>pipe_x := 600 - 5 * int 75\<rparr>],
          g_score = 0, g_run = True\<rparr>"
    by (rule first_approach) simp
  show ?thesis
    using floor_segments_tile [of sample_assets "\<lparr>base_y = 730, base_x1 = - 670, base_x2 = 2\<rparr>"
        75 730 3 "replicate 75 (no_events 7)"
        "\<lparr>g_bird = (bird_draw ^^ 75) (Bird_init 230 (PyInt 350)),
          g_base = (base_move sample_assets ^^ 75) (Base_init sample_assets 730),
          g_pipes = [(Pipe_init sample_assets 600 3)\<lparr>pipe_x := 600 - 5 * int 75\<rparr>],
          g_score = 0, g_run = True\<rparr>"] reach
    unfolding w by simp
qed

section \<open>Collision of the bird with a pipe\<close>

text \<open>
  C9. \<open>Pipe.collide\<close> is true exactly when some set bit of the bird's mask lies on a set
  bit of the top pipe's mask placed at the offset \<open>(pipe.x - bird.x, top - round(bird.y))\<close>,
  or on a set bit of the bottom pipe's mask placed at
  \<open>(pipe.x - bird.x, bottom - round(bird.y))\<close>. The sizes of the surfaces play no part:
  without a shared opaque pixel the result is false, however the rectangles lie.
\<close>

theorem collide_iff_shared_pixel:
  "collide A p b \<longleftrightarrow>
     (\<exists>q\<in>set (m_bits (get_mask A b)).
        (fst q - (pipe_x p - bird_x b), snd q - (pipe_top p - py_round (bird_y b)))
          \<in> set (m_bits (from_surface (PIPE_TOP A)))) \<or>
     (\<exists>q\<in>set (m_bits (get_mask A b)).
        (fst q - (pipe_x p - bird_x b), snd q - (pipe_bottom p - py_round (bird_y b)))
          \<in> set (m_bits (from_surface (PIPE_BOTTOM A))))"
proof -
  have ov: "overlap m other offs \<noteq> None \<longleftrightarrow>
      (\<exists>q\<in>set (m_bits m). (fst q - fst offs, snd q - snd offs) \<in> set (m_bits other))"
    for m other offs
    unfolding overlap_def find_None_iff case_prod_beta by blast
  show ?thesis
    unfolding collide_def Let_def ov by simp
qed

text \<open>
  The bird of \<open>main\<close>, 68 by 48 at (230, 350), and a top pipe, 104 by 640, at (250, -240):
  the rectangles overlap, no opaque pixel is shared, and there is no collision. With the
  top pipe at (240, -279) its opaque pixel (0, 639) lies on the bird's opaque pixel
  (10, 10), and there is a collision.
\<close>

theorem collide_iff_shared_pixel_witness:
  "\<not> collide sample_assets
       \<lparr>pipe_x = 250, pipe_height = 400, pipe_top = - 240, pipe_bottom = 600, pipe_passed = False\<rparr>
       (Bird_init 230 (PyInt 350)) \<and>
   collide sample_assets
       \<lparr>pipe_x = 240, pipe_height = 361, pipe_top = - 279, pipe_bottom = 561, pipe_passed = False\<rparr>
       (Bird_init 230 (PyInt 350))"
proof -
  have bm: "m_bits (get_mask sample_assets (Bird_init 230 (PyInt 350))) = [(10, 10), (11, 10)]"
    by (simp add: get_mask_def BIRD_IMGS_def from_surface_def sample_assets_def Bird_init_def)
  have tm: "m_bits (from_surface (PIPE_TOP sample_assets)) = [(0, 639), (1, 639)]"
    by (simp add: PIPE_TOP_def flip_def from_surface_def sample_assets_def)
  have btm: "m_bits (from_surface (PIPE_BOTTOM sample_assets)) = [(0, 0), (1, 0)]"
    by (simp add: PIPE_BOTTOM_def from_surface_def sample_assets_def)
  have r: "py_round (bird_y (Bird_init 230 (PyInt 350))) = 350" "bird_x (Bird_init 230 (PyInt 350)) = 230"
    by (simp_all add: Bird_init_def)
  show ?thesis
    using collide_iff_shared_pixel [of sample_assets
        "\<lparr>pipe_x = 250, pipe_height = 400, pipe_top = - 240, pipe_bottom = 600, pipe_passed = False\<rparr>"
        "Bird_init 230 (PyInt 350)"]
      collide_iff_shared_pixel [of sample_assets
        "\<lparr>pipe_x = 240, pipe_height = 361, pipe_top = - 279, pipe_bottom = 561, pipe_passed = False\<rparr>"
        "Bird_init 230 (PyInt 350)"]
    unfolding bm tm btm r by simp
qed

end
